theory Spec2Isabelle
  imports Complex_Main
begin

section \<open>Combat core of the game: monsters (monsters.js) and spells (spells.js)\<close>

text \<open>
  JavaScript numbers are modelled as mathematical reals: \<open>Math.sqrt\<close> is \<open>sqrt\<close>,
  \<open>Math.PI\<close> is \<open>pi\<close>, comparisons are the order of the reals. Rounding, NaN and
  signed zeros are outside this model. The wall clock (\<open>performance.now() / 1000\<close>),
  the terrain height query and the random numbers are read by the code from its
  environment; here they are explicit arguments, with one clock value for a call.
\<close>

subsection \<open>Numeric helpers of the JavaScript library\<close>

text \<open>\<open>Math.atan2(y, x)\<close>: the angle of the point \<open>(x, y)\<close>, in \<open>(-\<pi>, \<pi>]\<close>, and 0 at the origin.\<close>

definition atan2 :: "real \<Rightarrow> real \<Rightarrow> real" where
  "atan2 y x =
     (if 0 < x then arctan (y / x)
      else if x < 0 then (if 0 \<le> y then arctan (y / x) + pi else arctan (y / x) - pi)
      else if 0 < y then pi / 2
      else if y < 0 then - (pi / 2)
      else 0)"

text \<open>\<open>THREE.MathUtils.lerp(x, y, t)\<close>.\<close>

definition lerp :: "real \<Rightarrow> real \<Rightarrow> real \<Rightarrow> real" where
  "lerp x y t = (1 - t) * x + t * y"

text \<open>The remainder operator \<open>a % b\<close> on numbers: the quotient is truncated toward zero.\<close>

definition js_rem :: "real \<Rightarrow> real \<Rightarrow> real" where
  "js_rem a b = a - b * of_int (if 0 \<le> a / b then \<lfloor>a / b\<rfloor> else \<lceil>a / b\<rceil>)"

subsection \<open>Data model\<close>

datatype mstate = Idle | Chase | Attack | Dead

record vec3 =
  vx :: real
  vy :: real
  vz :: real

text \<open>
  An entry of \<open>MONSTER_TYPES\<close>, or the type object of the boss, which has no \<open>hp\<close>
  field. \<open>tkind\<close> stands for the mesh builder (\<open>createMushroom\<close>, \<open>createSlime\<close>,
  \<open>createBeetle\<close>, \<open>createMigge\<close>), which decides the animation callback of the
  monster. The name and the colours are display only and are left out.
\<close>

datatype mkind = Mushroom | Slime | Beetle | Migge

record monster_type =
  tkind :: mkind
  thp :: "real option"
  tdamage :: real
  tsize :: real
  tspeed :: real

definition MONSTER_TYPES :: "monster_type list" where
  "MONSTER_TYPES =
     [\<lparr>tkind = Mushroom, thp = Some 60, tdamage = 5, tsize = 2, tspeed = 2\<rparr>,
      \<lparr>tkind = Slime, thp = Some 45, tdamage = 3, tsize = 18 / 10, tspeed = 15 / 10\<rparr>,
      \<lparr>tkind = Beetle, thp = Some 50, tdamage = 4, tsize = 16 / 10, tspeed = 3\<rparr>]"

text \<open>
  A monster entry of the list \<open>monsters\<close>. \<open>gid\<close> stands for the identity of the
  object \<open>m.group\<close>; \<open>pos_x\<close>, \<open>pos_y\<close>, \<open>pos_z\<close> are \<open>m.group.position\<close>,
  \<open>rot_y\<close> is \<open>m.group.rotation.y\<close> and \<open>gscale\<close> the uniform \<open>m.group.scale\<close>.
  \<open>slowUntil\<close>, \<open>frozen\<close> (\<open>_frozen\<close>) and \<open>frozenPos\<close> (\<open>_frozenPos\<close>) are the
  fields that spells.js adds to a monster; an absent or null field is \<open>None\<close>, an absent
  flag is \<open>False\<close>. The meshes and the floating hp bar are display only and are left
  out; of the animation callback the part that moves the group is kept (\<open>updateAnim\<close>
  below).
\<close>

record monster =
  gid :: nat
  pos_x :: real
  pos_y :: real
  pos_z :: real
  rot_y :: real
  gscale :: real
  mtype :: monster_type
  hp :: real
  maxHp :: real
  state :: mstate
  mtime :: real
  attackCooldown :: real
  idleTarget :: vec3
  deathTime :: real
  isBoss :: bool
  slowUntil :: "real option"
  frozen :: bool
  frozenPos :: "(real \<times> real) option"

definition AGGRO_RANGE :: real where "AGGRO_RANGE = 12"
definition ATTACK_RANGE :: real where "ATTACK_RANGE = 2"
definition ATTACK_COOLDOWN :: real where "ATTACK_COOLDOWN = 3 / 2"

subsection \<open>Melee resolution: \<open>attackMonstersInRange\<close>\<close>

text \<open>The two \<open>while\<close> loops that bring the angle difference back to \<open>[-\<pi>, \<pi>]\<close>.\<close>

function wrap_down :: "real \<Rightarrow> real" where
  "wrap_down a = (if a > pi then wrap_down (a - pi * 2) else a)"
  by pat_completeness auto
termination
proof (relation "measure (\<lambda>a. nat \<lceil>(a - pi) / (2 * pi)\<rceil>)")
  show "wf (measure (\<lambda>a. nat \<lceil>(a - pi) / (2 * pi)\<rceil>))" by simp
next
  fix a :: real
  assume h: "pi < a"
  have e: "(a - pi * 2 - pi) / (2 * pi) = (a - pi) / (2 * pi) - 1"
    by (simp add: field_simps)
  have "0 < (a - pi) / (2 * pi)" using h by simp
  then have "0 < \<lceil>(a - pi) / (2 * pi)\<rceil>" by linarith
  then have "nat \<lceil>(a - pi * 2 - pi) / (2 * pi)\<rceil> < nat \<lceil>(a - pi) / (2 * pi)\<rceil>"
    unfolding e by simp
  then show "(a - pi * 2, a) \<in> measure (\<lambda>a. nat \<lceil>(a - pi) / (2 * pi)\<rceil>)" by simp
qed

function wrap_up :: "real \<Rightarrow> real" where
  "wrap_up a = (if a < - pi then wrap_up (a + pi * 2) else a)"
  by pat_completeness auto
termination
proof (relation "measure (\<lambda>a. nat \<lceil>(- pi - a) / (2 * pi)\<rceil>)")
  show "wf (measure (\<lambda>a. nat \<lceil>(- pi - a) / (2 * pi)\<rceil>))" by simp
next
  fix a :: real
  assume h: "a < - pi"
  have e: "(- pi - (a + pi * 2)) / (2 * pi) = (- pi - a) / (2 * pi) - 1"
    by (simp add: field_simps)
  have "0 < (- pi - a) / (2 * pi)" using h by simp
  then have "0 < \<lceil>(- pi - a) / (2 * pi)\<rceil>" by linarith
  then have "nat \<lceil>(- pi - (a + pi * 2)) / (2 * pi)\<rceil> < nat \<lceil>(- pi - a) / (2 * pi)\<rceil>"
    unfolding e by simp
  then show "(a + pi * 2, a) \<in> measure (\<lambda>a. nat \<lceil>(- pi - a) / (2 * pi)\<rceil>)" by simp
qed

declare wrap_down.simps [simp del]
declare wrap_up.simps [simp del]

text \<open>
  The body of the loop of \<open>attackMonstersInRange\<close> for one monster: the monster after
  the iteration and whether it was hit.
\<close>

definition attack_one :: "vec3 \<Rightarrow> real \<Rightarrow> real \<Rightarrow> real \<Rightarrow> monster \<Rightarrow> monster \<times> bool" where
  "attack_one playerPos playerAngle rng damage m =
     (if state m = Dead then (m, False)
      else
        let dx = pos_x m - vx playerPos;
            dz = pos_z m - vz playerPos;
            dist = sqrt (dx * dx + dz * dz)
        in if dist > rng then (m, False)
           else
             let angleToMonster = atan2 dx dz;
                 angleDiff = wrap_up (wrap_down (angleToMonster - playerAngle))
             in if \<bar>angleDiff\<bar> < pi / 2 then
                  let m1 = m\<lparr>hp := hp m - damage\<rparr>;
                      m2 = (if dist > 1 / 10
                            then m1\<lparr>pos_x := pos_x m1 + (dx / dist) * (8 / 10),
                                    pos_z := pos_z m1 + (dz / dist) * (8 / 10)\<rparr>
                            else m1);
                      m3 = (if hp m2 \<le> 0
                            then m2\<lparr>hp := 0, state := Dead, deathTime := 0\<rparr>
                            else m2)
                  in (m3, True)
                else (m, False))"

text \<open>The \<open>for (const m of monsters)\<close> loop, with the flag \<open>hitAny\<close> threaded through.\<close>

fun attack_loop ::
  "vec3 \<Rightarrow> real \<Rightarrow> real \<Rightarrow> real \<Rightarrow> monster list \<Rightarrow> bool \<Rightarrow> monster list \<times> bool" where
  "attack_loop playerPos playerAngle rng damage [] hitAny = ([], hitAny)"
| "attack_loop playerPos playerAngle rng damage (m # ms) hitAny =
     (let (m', h) = attack_one playerPos playerAngle rng damage m;
          (ms', hitAny') = attack_loop playerPos playerAngle rng damage ms (if h then True else hitAny)
      in (m' # ms', hitAny'))"

text \<open>
  The state shared by the monster system and the spell system. \<open>scene\<close> holds the
  groups of the monsters that are in the scene; \<open>timers\<close> holds the delays, in
  milliseconds, of the respawn callbacks handed to \<open>setTimeout\<close>, oldest first.
  Of a projectile and of an effect the fields that the logic reads are kept; their
  meshes, particles and lights are display only. \<open>proto_currentCd\<close> says that
  \<open>Object.prototype\<close> has got a property \<open>currentCd\<close>, which \<open>castSpell\<close> creates
  when it is called with the name \<open>__proto__\<close>.
\<close>

datatype effect_kind = FrostNovaFx | ImpactFx

record effect =
  e_kind :: effect_kind
  e_time :: real
  e_maxTime :: real

record projectile =
  p_pos :: vec3
  p_dir :: vec3
  p_speed :: real
  p_damage :: real
  p_slowDuration :: real
  p_range :: real
  p_traveled :: real
  p_time :: real

record game =
  monsters :: "monster list"
  scene :: "nat set"
  timers :: "real list"
  frostbolt_currentCd :: real
  frostNova_currentCd :: real
  projectiles :: "projectile list"
  effects :: "effect list"
  proto_currentCd :: bool

definition attackMonstersInRange ::
  "vec3 \<Rightarrow> real \<Rightarrow> real \<Rightarrow> real \<Rightarrow> game \<Rightarrow> game \<times> bool" where
  "attackMonstersInRange playerPos playerAngle rng damage s =
     (let (ms', hitAny) = attack_loop playerPos playerAngle rng damage (monsters s) False
      in (s\<lparr>monsters := ms'\<rparr>, hitAny))"

subsection \<open>Spawning\<close>

text \<open>
  The object that \<open>spawnMonster\<close> pushes for the chosen type, position, group and
  random start time, and the one that \<open>spawnBoss\<close> pushes; \<open>spawn_push\<close> adds
  the group to the scene and the object to the list.
\<close>

definition new_monster :: "monster_type \<Rightarrow> real \<Rightarrow> real \<Rightarrow> real \<Rightarrow> real \<Rightarrow> nat \<Rightarrow> monster" where
  "new_monster ty x y z t g =
     \<lparr>gid = g, pos_x = x, pos_y = y, pos_z = z, rot_y = 0, gscale = tsize ty, mtype = ty,
      hp = the (thp ty), maxHp = the (thp ty), state = Idle, mtime = t, attackCooldown = 0,
      idleTarget = \<lparr>vx = x, vy = y, vz = z\<rparr>, deathTime = 0, isBoss = False,
      slowUntil = None, frozen = False, frozenPos = None\<rparr>"

definition new_boss :: "real \<Rightarrow> nat \<Rightarrow> monster" where
  "new_boss bossY g =
     \<lparr>gid = g, pos_x = 55, pos_y = bossY, pos_z = 55, rot_y = 0, gscale = 5,
      mtype = \<lparr>tkind = Migge, thp = None, tdamage = 15, tsize = 5, tspeed = 4\<rparr>,
      hp = 500, maxHp = 500, state = Idle, mtime = 0, attackCooldown = 0,
      idleTarget = \<lparr>vx = 55, vy = bossY, vz = 55\<rparr>, deathTime = 0, isBoss = True,
      slowUntil = None, frozen = False, frozenPos = None\<rparr>"

definition spawn_push :: "monster \<Rightarrow> game \<Rightarrow> game" where
  "spawn_push m s = s\<lparr>scene := insert (gid m) (scene s), monsters := monsters s @ [m]\<rparr>"

subsection \<open>The per-frame monster update: \<open>update\<close> of monsters.js\<close>

text \<open>The branch of a dead monster, up to the removal test.\<close>

definition dead_step :: "real \<Rightarrow> monster \<Rightarrow> monster" where
  "dead_step delta m =
     (let m1 = m\<lparr>deathTime := deathTime m + delta\<rparr>;
          deathSpeed = (if isBoss m1 then 1 / 2 else 2)
      in m1\<lparr>pos_y := pos_y m1 - delta * (if isBoss m1 then 3 / 10 else 1 / 2),
             gscale := max 0 (tsize (mtype m1) * (1 - deathTime m1 * deathSpeed))\<rparr>)"

definition removeTime :: "monster \<Rightarrow> real" where
  "removeTime m = (if isBoss m then 4 else 3 / 2)"

text \<open>
  \<open>m.updateAnim(delta, state, time)\<close>: the callbacks of the four builders turn and
  scale meshes inside the group; the one of the mushroom also adds a wobble to
  \<open>group.position.y\<close>.
\<close>

definition updateAnim :: "real \<Rightarrow> mstate \<Rightarrow> real \<Rightarrow> monster \<Rightarrow> monster" where
  "updateAnim delta st t m =
     (if tkind (mtype m) = Mushroom
      then m\<lparr>pos_y := pos_y m + sin (t * 4) * (2 / 1000) * (if st = Chase then 2 else 1)\<rparr>
      else m)"

text \<open>
  The rest of the loop body, for a monster that is not dead. \<open>rnd\<close> is the pair of
  values that the two calls of \<open>randomRange(-3, 3)\<close> return in this iteration.
\<close>

definition alive_step ::
  "(real \<Rightarrow> real \<Rightarrow> real) \<Rightarrow> real \<times> real \<Rightarrow> real \<Rightarrow> vec3 \<Rightarrow> monster \<Rightarrow> monster" where
  "alive_step getTerrainHeight rnd delta playerPos m =
     (let dx = vx playerPos - pos_x m;
          dz = vz playerPos - pos_z m;
          dist = sqrt (dx * dx + dz * dz);
          m1 = m\<lparr>attackCooldown := max 0 (attackCooldown m - delta)\<rparr>;
          aggroRange = (if isBoss m1 then 40 else AGGRO_RANGE);
          attackRange = (if isBoss m1 then 8 else ATTACK_RANGE);
          m2 =
            (if dist < aggroRange then
               let angle = atan2 dx dz;
                   m' = m1\<lparr>rot_y := lerp (rot_y m1) angle (min 1 (5 * delta))\<rparr>
               in if dist < attackRange then m'\<lparr>state := Attack\<rparr>
                  else m'\<lparr>state := Chase,
                          pos_x := pos_x m' + (dx / dist) * tspeed (mtype m') * delta,
                          pos_z := pos_z m' + (dz / dist) * tspeed (mtype m') * delta\<rparr>
             else
               let m' = m1\<lparr>state := Idle\<rparr>;
                   m'' = (if js_rem (mtime m') 4 < delta
                          then m'\<lparr>idleTarget := \<lparr>vx = pos_x m' + fst rnd, vy = 0,
                                                   vz = pos_z m' + snd rnd\<rparr>\<rparr>
                          else m');
                   idx = vx (idleTarget m'') - pos_x m'';
                   idz = vz (idleTarget m'') - pos_z m'';
                   idist = sqrt (idx * idx + idz * idz)
               in if idist > 1 / 2
                  then m''\<lparr>pos_x := pos_x m'' + (idx / idist) * (1 / 2) * delta,
                           pos_z := pos_z m'' + (idz / idist) * (1 / 2) * delta,
                           rot_y := lerp (rot_y m'') (atan2 idx idz) (min 1 (2 * delta))\<rparr>
                  else m'');
          ty = getTerrainHeight (pos_x m2) (pos_z m2);
          m3 = m2\<lparr>pos_y := lerp (pos_y m2) ty (min 1 (6 * delta))\<rparr>
      in updateAnim delta (state m3) (mtime m3) m3)"

text \<open>One iteration of the loop, at index \<open>i\<close>; \<open>splice(i, 1)\<close> drops that index.\<close>

definition update_at ::
  "(real \<Rightarrow> real \<Rightarrow> real) \<Rightarrow> (nat \<Rightarrow> real \<times> real) \<Rightarrow> real \<Rightarrow> vec3 \<Rightarrow> nat \<Rightarrow> game \<Rightarrow> game" where
  "update_at getTerrainHeight rnd delta playerPos i s =
     (let m0 = monsters s ! i;
          m = m0\<lparr>mtime := mtime m0 + delta\<rparr>
      in if state m = Dead then
           let m1 = dead_step delta m
           in if deathTime m1 > removeTime m1
              then s\<lparr>scene := scene s - {gid m1},
                     monsters := take i (monsters s) @ drop (Suc i) (monsters s),
                     timers := (if \<not> isBoss m1 then timers s @ [5000] else timers s)\<rparr>
              else s\<lparr>monsters := (monsters s)[i := m1]\<rparr>
         else s\<lparr>monsters := (monsters s)[i := alive_step getTerrainHeight (rnd i) delta playerPos m]\<rparr>)"

text \<open>The loop runs from the last index down to 0: \<open>update_loop n\<close> does the indices below \<open>n\<close>.\<close>

fun update_loop ::
  "(real \<Rightarrow> real \<Rightarrow> real) \<Rightarrow> (nat \<Rightarrow> real \<times> real) \<Rightarrow> real \<Rightarrow> vec3 \<Rightarrow> nat \<Rightarrow> game \<Rightarrow> game" where
  "update_loop getTerrainHeight rnd delta playerPos 0 s = s"
| "update_loop getTerrainHeight rnd delta playerPos (Suc i) s =
     update_loop getTerrainHeight rnd delta playerPos i
       (update_at getTerrainHeight rnd delta playerPos i s)"

definition update ::
  "(real \<Rightarrow> real \<Rightarrow> real) \<Rightarrow> (nat \<Rightarrow> real \<times> real) \<Rightarrow> real \<Rightarrow> vec3 \<Rightarrow> game \<Rightarrow> game" where
  "update getTerrainHeight rnd delta playerPos s =
     update_loop getTerrainHeight rnd delta playerPos (length (monsters s)) s"

subsection \<open>\<open>checkPlayerDamage\<close>\<close>

definition check_one :: "vec3 \<Rightarrow> monster \<Rightarrow> monster \<times> bool" where
  "check_one playerPos m =
     (if state m \<noteq> Attack \<or> attackCooldown m > 0 then (m, False)
      else
        let dx = vx playerPos - pos_x m;
            dz = vz playerPos - pos_z m;
            dist = sqrt (dx * dx + dz * dz);
            atkRange = (if isBoss m then 8 else ATTACK_RANGE)
        in if dist < atkRange then (m\<lparr>attackCooldown := ATTACK_COOLDOWN\<rparr>, True)
           else (m, False))"

fun check_loop :: "vec3 \<Rightarrow> monster list \<Rightarrow> real \<Rightarrow> monster list \<times> real" where
  "check_loop playerPos [] totalDamage = ([], totalDamage)"
| "check_loop playerPos (m # ms) totalDamage =
     (let (m', c) = check_one playerPos m;
          (ms', total') =
             check_loop playerPos ms (if c then totalDamage + tdamage (mtype m) else totalDamage)
      in (m' # ms', total'))"

definition checkPlayerDamage :: "vec3 \<Rightarrow> game \<Rightarrow> game \<times> real" where
  "checkPlayerDamage playerPos s =
     (let (ms', totalDamage) = check_loop playerPos (monsters s) 0
      in (s\<lparr>monsters := ms'\<rparr>, totalDamage))"

section \<open>The spell system: spells.js\<close>

text \<open>
  The constant fields of the two entries of \<open>spells\<close>; only \<open>currentCd\<close> is ever
  assigned, and it lives in the state.
\<close>

definition frostbolt_cooldown :: real where "frostbolt_cooldown = 0"
definition frostbolt_damage :: real where "frostbolt_damage = 25"
definition frostbolt_range :: real where "frostbolt_range = 40"
definition frostbolt_speed :: real where "frostbolt_speed = 25"
definition frostbolt_slowDuration :: real where "frostbolt_slowDuration = 3"

definition frostNova_cooldown :: real where "frostNova_cooldown = 8"
definition frostNova_damage :: real where "frostNova_damage = 15"
definition frostNova_range :: real where "frostNova_range = 6"
definition frostNova_slowDuration :: real where "frostNova_slowDuration = 4"

text \<open>
  \<open>spells[name]\<close>. \<open>spells\<close> is an object literal, so besides its two own keys the
  lookup finds the functions that every object inherits from \<open>Object.prototype\<close>
  (\<open>Inherited\<close>), and under \<open>__proto__\<close> the object \<open>Object.prototype\<close> itself
  (\<open>Prototype\<close>). Any other name gives \<open>undefined\<close>; so does \<open>currentCd\<close> once
  \<open>Object.prototype\<close> has that property, since its value is \<open>undefined\<close>.
\<close>

datatype spell_ref = Frostbolt | FrostNova | Inherited | Prototype

definition object_prototype_keys :: "string list" where
  "object_prototype_keys =
     [''constructor'', ''toString'', ''toLocaleString'', ''valueOf'', ''hasOwnProperty'',
      ''isPrototypeOf'', ''propertyIsEnumerable'', ''__defineGetter__'',
      ''__defineSetter__'', ''__lookupGetter__'', ''__lookupSetter__'']"

definition spells_lookup :: "string \<Rightarrow> spell_ref option" where
  "spells_lookup name =
     (if name = ''frostbolt'' then Some Frostbolt
      else if name = ''frostNova'' then Some FrostNova
      else if name = ''__proto__'' then Some Prototype
      else if name \<in> set object_prototype_keys then Some Inherited
      else None)"

text \<open>\<open>Vector3.normalize\<close>: division by the length, or by 1 when the length is 0.\<close>

definition vnormalize :: "vec3 \<Rightarrow> vec3" where
  "vnormalize v =
     (let l = sqrt (vx v * vx v + vy v * vy v + vz v * vz v);
          d = (if l = 0 then 1 else l)
      in \<lparr>vx = vx v / d, vy = vy v / d, vz = vz v / d\<rparr>)"

definition spawnFrostbolt :: "vec3 \<Rightarrow> real \<Rightarrow> real \<Rightarrow> game \<Rightarrow> game" where
  "spawnFrostbolt casterPos angle pitch s =
     s\<lparr>projectiles := projectiles s @
        [\<lparr>p_pos = \<lparr>vx = vx casterPos, vy = vy casterPos + 15 / 10, vz = vz casterPos\<rparr>,
          p_dir = vnormalize \<lparr>vx = sin angle * cos pitch, vy = sin pitch,
                               vz = cos angle * cos pitch\<rparr>,
          p_speed = frostbolt_speed, p_damage = frostbolt_damage,
          p_slowDuration = frostbolt_slowDuration, p_range = frostbolt_range,
          p_traveled = 0, p_time = 0\<rparr>]\<rparr>"

text \<open>The body of the damage loop of \<open>spawnFrostNova\<close> for one monster.\<close>

definition nova_one :: "real \<Rightarrow> vec3 \<Rightarrow> monster \<Rightarrow> monster" where
  "nova_one now casterPos m =
     (if state m = Dead then m
      else
        let dx = pos_x m - vx casterPos;
            dz = pos_z m - vz casterPos;
            dist = sqrt (dx * dx + dz * dz)
        in if dist < frostNova_range then
             let m1 = m\<lparr>hp := hp m - frostNova_damage,
                        slowUntil := Some (now + frostNova_slowDuration)\<rparr>
             in if hp m1 \<le> 0 then m1\<lparr>hp := 0, state := Dead, deathTime := 0\<rparr> else m1
           else m)"

definition spawnFrostNova :: "real \<Rightarrow> vec3 \<Rightarrow> game \<Rightarrow> game" where
  "spawnFrostNova now casterPos s =
     s\<lparr>monsters := map (nova_one now casterPos) (monsters s),
       effects := effects s @ [\<lparr>e_kind = FrostNovaFx, e_time = 0, e_maxTime = 15 / 10\<rparr>]\<rparr>"

text \<open>
  \<open>castSpell\<close>; an absent \<open>casterPitch\<close> is \<open>None\<close>. For an inherited member
  \<open>spell.currentCd\<close> is \<open>undefined\<close>, the test \<open>undefined > 0\<close> is false, the
  assignment stores \<open>undefined\<close> on that member and neither name matches. When the
  member is \<open>Object.prototype\<close> itself, the assignment gives every object the
  enumerable property \<open>currentCd\<close>.
\<close>

definition castSpell :: "real \<Rightarrow> string \<Rightarrow> vec3 \<Rightarrow> real \<Rightarrow> real option \<Rightarrow> game \<Rightarrow> game \<times> bool" where
  "castSpell now name casterPos casterAngle casterPitch s =
     (case spells_lookup name of
        None \<Rightarrow> (s, False)
      | Some Inherited \<Rightarrow> (s, True)
      | Some Prototype \<Rightarrow> (s\<lparr>proto_currentCd := True\<rparr>, True)
      | Some Frostbolt \<Rightarrow>
          if frostbolt_currentCd s > 0 then (s, False)
          else (spawnFrostbolt casterPos casterAngle
                  (case casterPitch of None \<Rightarrow> 0 | Some p \<Rightarrow> p)
                  (s\<lparr>frostbolt_currentCd := frostbolt_cooldown\<rparr>), True)
      | Some FrostNova \<Rightarrow>
          if frostNova_currentCd s > 0 then (s, False)
          else (spawnFrostNova now casterPos (s\<lparr>frostNova_currentCd := frostNova_cooldown\<rparr>),
                True))"

subsection \<open>\<open>update\<close> of spells.js\<close>

text \<open>
  The hit detection loop of one projectile over the monsters, left at the first hit
  (\<open>break\<close>): the monsters after the loop and the flag \<open>hit\<close>.
\<close>

definition hitRange :: "monster \<Rightarrow> real" where
  "hitRange m = (if isBoss m then 4 else 15 / 10)"

definition bolt_damage :: "real \<Rightarrow> projectile \<Rightarrow> monster \<Rightarrow> monster" where
  "bolt_damage now p m =
     (let m1 = m\<lparr>hp := hp m - p_damage p, slowUntil := Some (now + p_slowDuration p)\<rparr>
      in if hp m1 \<le> 0 then m1\<lparr>hp := 0, state := Dead, deathTime := 0\<rparr> else m1)"

definition in_hit_range :: "projectile \<Rightarrow> monster \<Rightarrow> bool" where
  "in_hit_range p m =
     (let dx = pos_x m - vx (p_pos p);
          dz = pos_z m - vz (p_pos p);
          dist = sqrt (dx * dx + dz * dz)
      in dist < hitRange m)"

fun hit_detect :: "real \<Rightarrow> projectile \<Rightarrow> monster list \<Rightarrow> monster list \<times> bool" where
  "hit_detect now p [] = ([], False)"
| "hit_detect now p (m # ms) =
     (if state m = Dead then (let (ms', hit) = hit_detect now p ms in (m # ms', hit))
      else if in_hit_range p m then (bolt_damage now p m # ms, True)
      else (let (ms', hit) = hit_detect now p ms in (m # ms', hit)))"

definition advance :: "real \<Rightarrow> projectile \<Rightarrow> projectile" where
  "advance delta p =
     p\<lparr>p_time := p_time p + delta,
       p_pos := \<lparr>vx = vx (p_pos p) + vx (p_dir p) * (p_speed p * delta),
                  vy = vy (p_pos p) + vy (p_dir p) * (p_speed p * delta),
                  vz = vz (p_pos p) + vz (p_dir p) * (p_speed p * delta)\<rparr>,
       p_traveled := p_traveled p + p_speed p * delta\<rparr>"

text \<open>One iteration of the projectile loop, at index \<open>i\<close>.\<close>

definition projectile_at :: "real \<Rightarrow> real \<Rightarrow> nat \<Rightarrow> game \<Rightarrow> game" where
  "projectile_at now delta i s =
     (let p = advance delta (projectiles s ! i);
          (ms', hit) = hit_detect now p (monsters s);
          s1 = s\<lparr>monsters := ms'\<rparr>;
          s2 = (if hit
                then s1\<lparr>effects := effects s1 @
                        [\<lparr>e_kind = ImpactFx, e_time = 0, e_maxTime = 6 / 10\<rparr>]\<rparr>
                else s1)
      in if hit \<or> p_traveled p > p_range p
         then s2\<lparr>projectiles := take i (projectiles s2) @ drop (Suc i) (projectiles s2)\<rparr>
         else s2\<lparr>projectiles := (projectiles s2)[i := p]\<rparr>)"

fun projectile_loop :: "real \<Rightarrow> real \<Rightarrow> nat \<Rightarrow> game \<Rightarrow> game" where
  "projectile_loop now delta 0 s = s"
| "projectile_loop now delta (Suc i) s = projectile_loop now delta i (projectile_at now delta i s)"

definition effect_at :: "real \<Rightarrow> nat \<Rightarrow> game \<Rightarrow> game" where
  "effect_at delta i s =
     (let e0 = effects s ! i;
          e = e0\<lparr>e_time := e_time e0 + delta\<rparr>
      in if e_time e > e_maxTime e
         then s\<lparr>effects := take i (effects s) @ drop (Suc i) (effects s)\<rparr>
         else s\<lparr>effects := (effects s)[i := e]\<rparr>)"

fun effect_loop :: "real \<Rightarrow> nat \<Rightarrow> game \<Rightarrow> game" where
  "effect_loop delta 0 s = s"
| "effect_loop delta (Suc i) s = effect_loop delta i (effect_at delta i s)"

text \<open>
  The loop \<open>for (const key in spells)\<close> visits the two own keys first. Once
  \<open>Object.prototype\<close> has the property \<open>currentCd\<close> it visits that key too;
  \<open>spells['currentCd']\<close> is \<open>undefined\<close> and reading its \<open>currentCd\<close> throws a
  TypeError, which ends \<open>update\<close> with the two cooldowns decayed and nothing else done.
\<close>

datatype js_error = TypeError

definition decay_cooldowns :: "real \<Rightarrow> game \<Rightarrow> game" where
  "decay_cooldowns delta s =
     s\<lparr>frostbolt_currentCd := max 0 (frostbolt_currentCd s - delta),
       frostNova_currentCd := max 0 (frostNova_currentCd s - delta)\<rparr>"

definition spells_update_body :: "real \<Rightarrow> real \<Rightarrow> game \<Rightarrow> game" where
  "spells_update_body now delta s =
     (let s1 = decay_cooldowns delta s;
          s2 = projectile_loop now delta (length (projectiles s1)) s1
      in effect_loop delta (length (effects s2)) s2)"

definition spells_update :: "real \<Rightarrow> real \<Rightarrow> game \<Rightarrow> (js_error \<times> game) + game" where
  "spells_update now delta s =
     (if proto_currentCd s then Inl (TypeError, decay_cooldowns delta s)
      else Inr (spells_update_body now delta s))"

text \<open>The state that a call leaves behind, whether it returned or threw.\<close>

definition state_after :: "(js_error \<times> game) + game \<Rightarrow> game" where
  "state_after r = (case r of Inl (e, s) \<Rightarrow> s | Inr s \<Rightarrow> s)"

subsection \<open>The freeze wrapper installed over \<open>monsterSystem.update\<close>\<close>

text \<open>
  \<open>m.slowUntil && now < m.slowUntil && m.state !== 'dead'\<close>: an absent \<open>slowUntil\<close>
  and the number 0 are falsy.
\<close>

definition isFrozen :: "real \<Rightarrow> monster \<Rightarrow> bool" where
  "isFrozen now m =
     (case slowUntil m of
        None \<Rightarrow> False
      | Some u \<Rightarrow> u \<noteq> 0 \<and> now < u \<and> state m \<noteq> Dead)"

text \<open>The body of the loop before the delegated update, and of the loop after it.\<close>

definition freeze_mark :: "real \<Rightarrow> monster \<Rightarrow> monster" where
  "freeze_mark now m =
     (let m1 = (if isFrozen now m \<and> \<not> frozen m then m\<lparr>frozen := True\<rparr>
                else if \<not> isFrozen now m \<and> frozen m then m\<lparr>frozen := False\<rparr>
                else m)
      in if frozen m1
         then m1\<lparr>frozenPos := (case frozenPos m1 of
                                   None \<Rightarrow> Some (pos_x m1, pos_z m1)
                                 | Some fp \<Rightarrow> Some fp)\<rparr>
         else m1\<lparr>frozenPos := None\<rparr>)"

definition snap_back :: "monster \<Rightarrow> monster" where
  "snap_back m =
     (case frozenPos m of
        None \<Rightarrow> m
      | Some fp \<Rightarrow> if frozen m then m\<lparr>pos_x := fst fp, pos_z := snd fp\<rparr> else m)"

definition wrapped_update ::
  "(real \<Rightarrow> real \<Rightarrow> real) \<Rightarrow> (nat \<Rightarrow> real \<times> real) \<Rightarrow> real \<Rightarrow> real \<Rightarrow> vec3 \<Rightarrow> game \<Rightarrow> game" where
  "wrapped_update getTerrainHeight rnd now delta playerPos s =
     (let s1 = s\<lparr>monsters := map (freeze_mark now) (monsters s)\<rparr>;
          s2 = update getTerrainHeight rnd delta playerPos s1
      in s2\<lparr>monsters := map snap_back (monsters s2)\<rparr>)"

section \<open>One monster through the operations\<close>

text \<open>
  Every loop above treats one monster at a time, and no iteration reads another monster.
  The functions below give what an operation does to a single monster; the lemmas of
  the next section connect them with the loops.
\<close>

text \<open>The planar distance between a point and a monster, as every loop computes it.\<close>

definition planar_dist :: "vec3 \<Rightarrow> monster \<Rightarrow> real" where
  "planar_dist p m =
     sqrt ((pos_x m - vx p) * (pos_x m - vx p) + (pos_z m - vz p) * (pos_z m - vz p))"

text \<open>
  One iteration of the loop of \<open>update\<close> seen from its monster: \<open>None\<close> when the
  iteration removes it.
\<close>

definition update_one ::
  "(real \<Rightarrow> real \<Rightarrow> real) \<Rightarrow> real \<times> real \<Rightarrow> real \<Rightarrow> vec3 \<Rightarrow> monster \<Rightarrow> monster option" where
  "update_one getTerrainHeight rnd delta playerPos m0 =
     (let m = m0\<lparr>mtime := mtime m0 + delta\<rparr>
      in if state m = Dead then
           let m1 = dead_step delta m
           in if deathTime m1 > removeTime m1 then None else Some m1
         else Some (alive_step getTerrainHeight rnd delta playerPos m))"

definition wrapped_one ::
  "(real \<Rightarrow> real \<Rightarrow> real) \<Rightarrow> real \<times> real \<Rightarrow> real \<Rightarrow> real \<Rightarrow> vec3 \<Rightarrow> monster \<Rightarrow> monster option" where
  "wrapped_one getTerrainHeight rnd now delta playerPos m =
     map_option snap_back (update_one getTerrainHeight rnd delta playerPos (freeze_mark now m))"

text \<open>
  What can happen to a monster: a melee attack, the hit of a projectile (which damages
  the monster when it is not dead and within the hit radius), a frost nova, a damage
  check, and a frame of the wrapped update.
\<close>

datatype event =
    Melee vec3 real real real
  | Bolt real projectile
  | Nova real vec3
  | Check vec3
  | Frame "real \<Rightarrow> real \<Rightarrow> real" "real \<times> real" real real vec3

fun step :: "event \<Rightarrow> monster \<Rightarrow> monster option" where
  "step (Melee playerPos playerAngle rng damage) m =
     Some (fst (attack_one playerPos playerAngle rng damage m))"
| "step (Bolt now p) m =
     Some (if state m \<noteq> Dead \<and> in_hit_range p m then bolt_damage now p m else m)"
| "step (Nova now casterPos) m = Some (nova_one now casterPos m)"
| "step (Check playerPos) m = Some (fst (check_one playerPos m))"
| "step (Frame getTerrainHeight rnd now delta playerPos) m =
     wrapped_one getTerrainHeight rnd now delta playerPos m"

fun run :: "event list \<Rightarrow> monster \<Rightarrow> monster option" where
  "run [] m = Some m"
| "run (e # es) m = (case step e m of None \<Rightarrow> None | Some m' \<Rightarrow> run es m')"

text \<open>
  The monsters that contribute to the result of \<open>checkPlayerDamage\<close>, in the words
  of the specification.
\<close>

definition contributes :: "vec3 \<Rightarrow> monster \<Rightarrow> bool" where
  "contributes p m \<longleftrightarrow>
     state m = Attack \<and> attackCooldown m = 0 \<and> planar_dist p m < (if isBoss m then 8 else 2)"

text \<open>
  The angle difference normalised into \<open>(-\<pi>, \<pi>]\<close>, and the monsters that a melee
  attack hits, in the words of the specification but with the distance bound that the
  code has: a monster at exactly \<open>range\<close> is within range.
\<close>

definition angle_norm :: "real \<Rightarrow> real" where
  "angle_norm a = a - 2 * pi * of_int \<lceil>(a - pi) / (2 * pi)\<rceil>"

definition melee_hits :: "vec3 \<Rightarrow> real \<Rightarrow> real \<Rightarrow> monster \<Rightarrow> bool" where
  "melee_hits playerPos playerAngle rng m \<longleftrightarrow>
     state m \<noteq> Dead
   \<and> planar_dist playerPos m \<le> rng
   \<and> \<bar>angle_norm (atan2 (pos_x m - vx playerPos) (pos_z m - vz playerPos) - playerAngle)\<bar> < pi / 2"

text \<open>A monster that is not dead has positive hp.\<close>

definition hp_state_ok :: "monster \<Rightarrow> bool" where
  "hp_state_ok m \<longleftrightarrow> state m = Dead \<or> 0 < hp m"

text \<open>The damage that an event carries is not negative.\<close>

fun nonneg_damage :: "event \<Rightarrow> bool" where
  "nonneg_damage (Melee playerPos playerAngle rng damage) \<longleftrightarrow> 0 \<le> damage"
| "nonneg_damage (Bolt now p) \<longleftrightarrow> 0 \<le> p_damage p"
| "nonneg_damage (Nova now casterPos) \<longleftrightarrow> True"
| "nonneg_damage (Check playerPos) \<longleftrightarrow> True"
| "nonneg_damage (Frame getTerrainHeight rnd now delta playerPos) \<longleftrightarrow> True"

text \<open>
  A monster that a projectile can hit: not dead, and closer to the projectile than the
  hit radius of its kind (4 for the boss, 1.5 otherwise).
\<close>

definition eligible :: "projectile \<Rightarrow> monster \<Rightarrow> bool" where
  "eligible p m \<longleftrightarrow>
     state m \<noteq> Dead \<and> planar_dist (p_pos p) m < (if isBoss m then 4 else 3 / 2)"

text \<open>
  Along a sequence of events, at the end of every frame at which the monster is frozen,
  its position is \<open>fp\<close>; the check ends at the first frame at which it is no longer
  frozen.
\<close>

fun frozen_ok :: "real \<times> real \<Rightarrow> event list \<Rightarrow> monster \<Rightarrow> bool" where
  "frozen_ok fp [] m = True"
| "frozen_ok fp (Frame getTerrainHeight rnd now delta playerPos # es) m =
     (if isFrozen now m then
        (case wrapped_one getTerrainHeight rnd now delta playerPos m of
           None \<Rightarrow> False
         | Some m' \<Rightarrow> pos_x m' = fst fp \<and> pos_z m' = snd fp \<and> frozen_ok fp es m')
      else True)"
| "frozen_ok fp (e # es) m =
     (case step e m of None \<Rightarrow> True | Some m' \<Rightarrow> frozen_ok fp es m')"

fun is_frame :: "event \<Rightarrow> bool" where
  "is_frame (Frame getTerrainHeight rnd now delta playerPos) = True"
| "is_frame e = False"

text \<open>
  A dead monster whose \<open>deathTime\<close>, once \<open>delta\<close> is added, exceeds the removal time
  of its kind: the monsters that one call of \<open>update\<close> removes. \<open>new_index\<close> is the
  index after the call of the monster that was at index \<open>i\<close>: the number of monsters
  before it that the call keeps.
\<close>

definition expired :: "real \<Rightarrow> monster \<Rightarrow> bool" where
  "expired delta m \<longleftrightarrow> state m = Dead \<and> deathTime m + delta > removeTime m"

definition new_index :: "real \<Rightarrow> monster list \<Rightarrow> nat \<Rightarrow> nat" where
  "new_index delta ms i = length (filter (\<lambda>m. \<not> expired delta m) (take i ms))"

section \<open>The calls of the game loop\<close>

text \<open>
  The calls that the game loop makes on the two systems once the freeze wrapper is
  installed, as events on the game state: a melee attack, a cast, the update of the
  spells, the damage check, the push of a spawned monster, and a frame of the wrapped
  monster update. The update of the spells leaves its state behind also when it throws.
\<close>

datatype gevent =
    GMelee vec3 real real real
  | GCast real string vec3 real "real option"
  | GSpells real real
  | GCheck vec3
  | GSpawn monster
  | GFrame "real \<Rightarrow> real \<Rightarrow> real" "nat \<Rightarrow> real \<times> real" real real vec3

fun gstep :: "gevent \<Rightarrow> game \<Rightarrow> game" where
  "gstep (GMelee playerPos playerAngle rng damage) s =
     fst (attackMonstersInRange playerPos playerAngle rng damage s)"
| "gstep (GCast now name casterPos casterAngle casterPitch) s =
     fst (castSpell now name casterPos casterAngle casterPitch s)"
| "gstep (GSpells now delta) s = state_after (spells_update now delta s)"
| "gstep (GCheck playerPos) s = fst (checkPlayerDamage playerPos s)"
| "gstep (GSpawn m) s = spawn_push m s"
| "gstep (GFrame getTerrainHeight rnd now delta playerPos) s =
     wrapped_update getTerrainHeight rnd now delta playerPos s"

fun is_gframe :: "gevent \<Rightarrow> bool" where
  "is_gframe (GFrame getTerrainHeight rnd now delta playerPos) = True"
| "is_gframe e = False"

text \<open>
  Along a sequence of calls the monster at index \<open>i\<close> is dead for as long as it is in
  the list. A frame moves it to the index \<open>new_index\<close>, unless the frame removes it,
  which ends the check.
\<close>

fun stays_dead :: "gevent list \<Rightarrow> game \<Rightarrow> nat \<Rightarrow> bool" where
  "stays_dead [] s i \<longleftrightarrow> i < length (monsters s) \<and> state (monsters s ! i) = Dead"
| "stays_dead (GFrame getTerrainHeight rnd now delta playerPos # es) s i \<longleftrightarrow>
     i < length (monsters s) \<and> state (monsters s ! i) = Dead
   \<and> (expired delta (monsters s ! i)
      \<or> stays_dead es (wrapped_update getTerrainHeight rnd now delta playerPos s)
           (new_index delta (monsters s) i))"
| "stays_dead (e # es) s i \<longleftrightarrow>
     i < length (monsters s) \<and> state (monsters s ! i) = Dead \<and> stays_dead es (gstep e s) i"

text \<open>
  Along a sequence of calls, at the end of every frame at which the monster at index
  \<open>i\<close> is frozen, it is in the list, at the index \<open>new_index\<close>, with the same group
  and at the position \<open>fp\<close>; the check ends at the first frame at which it is no longer
  frozen.
\<close>

fun stays_put :: "real \<times> real \<Rightarrow> gevent list \<Rightarrow> game \<Rightarrow> nat \<Rightarrow> bool" where
  "stays_put fp [] s i \<longleftrightarrow> True"
| "stays_put fp (GFrame getTerrainHeight rnd now delta playerPos # es) s i \<longleftrightarrow>
     (if isFrozen now (monsters s ! i) then
        (let s' = wrapped_update getTerrainHeight rnd now delta playerPos s;
             j = new_index delta (monsters s) i
         in j < length (monsters s')
          \<and> gid (monsters s' ! j) = gid (monsters s ! i)
          \<and> pos_x (monsters s' ! j) = fst fp \<and> pos_z (monsters s' ! j) = snd fp
          \<and> stays_put fp es s' j)
      else True)"
| "stays_put fp (e # es) s i \<longleftrightarrow> stays_put fp es (gstep e s) i"

text \<open>
  The monsters after the projectile loop has gone through the projectiles \<open>ps\<close>, the
  last one first: each projectile is advanced and its hit detection runs on the monsters
  that the projectiles after it have left.
\<close>

fun after_bolts :: "real \<Rightarrow> real \<Rightarrow> projectile list \<Rightarrow> monster list \<Rightarrow> monster list" where
  "after_bolts now delta [] ms = ms"
| "after_bolts now delta (p # ps) ms =
     fst (hit_detect now (advance delta p) (after_bolts now delta ps ms))"

subsection \<open>Sample data\<close>

definition origin :: vec3 where
  "origin = \<lparr>vx = 0, vy = 0, vz = 0\<rparr>"

definition ex_monster :: "real \<Rightarrow> real \<Rightarrow> monster" where
  "ex_monster x z =
     new_monster \<lparr>tkind = Mushroom, thp = Some 60, tdamage = 5, tsize = 2, tspeed = 2\<rparr> x 0 z 0 0"

definition ex_game :: "monster list \<Rightarrow> game" where
  "ex_game ms =
     \<lparr>monsters = ms, scene = gid ` set ms, timers = [], frostbolt_currentCd = 0,
      frostNova_currentCd = 0, projectiles = [], effects = [], proto_currentCd = False\<rparr>"

definition frozen_sample :: monster where
  "frozen_sample = (ex_monster 5 0)\<lparr>slowUntil := Some 10\<rparr>"

definition bolt_sample :: projectile where
  "bolt_sample =
     \<lparr>p_pos = origin, p_dir = \<lparr>vx = 0, vy = 0, vz = 1\<rparr>, p_speed = 25, p_damage = 25,
      p_slowDuration = 3, p_range = 40, p_traveled = 0, p_time = 0\<rparr>"

definition c7_dead :: monster where
  "c7_dead = (ex_monster 9 9)\<lparr>state := Dead, deathTime := 29 / 20\<rparr>"

definition c7_game :: game where
  "c7_game = ex_game [c7_dead, ex_monster 0 0]"

definition c6_game :: game where
  "c6_game =
     ex_game [(ex_monster 0 0)\<lparr>state := Dead, deathTime := 29 / 20\<rparr>,
              (new_boss 0 1)\<lparr>state := Dead, deathTime := 4\<rparr>,
              (ex_monster 5 5)\<lparr>gid := 2, state := Dead, deathTime := 0\<rparr>]"

definition c5_game :: game where
  "c5_game = ex_game [(ex_monster 9 9)\<lparr>state := Dead, deathTime := 29 / 20\<rparr>, frozen_sample]"

definition late_bolt :: projectile where
  "late_bolt = bolt_sample\<lparr>p_pos := \<lparr>vx = 0, vy = 0, vz = 40\<rparr>, p_traveled := 40\<rparr>"

definition late_game :: game where
  "late_game = (ex_game [ex_monster 0 41])\<lparr>projectiles := [late_bolt]\<rparr>"

definition far_bolt :: projectile where
  "far_bolt = bolt_sample\<lparr>p_pos := \<lparr>vx = 0, vy = 0, vz = 50\<rparr>\<rparr>"

definition spent_bolt :: projectile where
  "spent_bolt = bolt_sample\<lparr>p_pos := \<lparr>vx = 0, vy = 0, vz = 99\<rparr>, p_traveled := 40\<rparr>"

definition c4_game :: game where
  "c4_game =
     (ex_game [ex_monster 0 1, ex_monster 0 2])\<lparr>projectiles := [bolt_sample, spent_bolt, far_bolt]\<rparr>"

section \<open>The loops, monster by monster\<close>

lemma attack_loop_eq:
  "attack_loop pp pa r d ms h =
     (map (\<lambda>m. fst (attack_one pp pa r d m)) ms, h \<or> (\<exists>m\<in>set ms. snd (attack_one pp pa r d m)))"
  by (induction ms arbitrary: h) (auto simp: Let_def split: prod.splits)

lemma attackMonstersInRange_monsters:
  "monsters (fst (attackMonstersInRange pp pa r d s)) =
     map (\<lambda>m. fst (attack_one pp pa r d m)) (monsters s)"
  by (simp add: attackMonstersInRange_def attack_loop_eq)

lemma check_loop_eq:
  "check_loop pp ms t =
     (map (\<lambda>m. fst (check_one pp m)) ms,
      t + sum_list (map (\<lambda>m. tdamage (mtype m)) (filter (\<lambda>m. snd (check_one pp m)) ms)))"
  by (induction ms arbitrary: t) (auto simp: Let_def split: prod.splits)

lemma update_at_eq:
  "update_at g rnd delta pp i s =
     (case update_one g (rnd i) delta pp (monsters s ! i) of
        None \<Rightarrow> s\<lparr>scene := scene s - {gid (monsters s ! i)},
                   monsters := take i (monsters s) @ drop (Suc i) (monsters s),
                   timers := (if \<not> isBoss (monsters s ! i) then timers s @ [5000] else timers s)\<rparr>
      | Some m' \<Rightarrow> s\<lparr>monsters := (monsters s)[i := m']\<rparr>)"
  by (simp add: update_at_def update_one_def Let_def dead_step_def)

lemma wrap_down_id: "a \<le> pi \<Longrightarrow> wrap_down a = a"
  by (subst wrap_down.simps) simp

lemma wrap_up_id: "- pi \<le> a \<Longrightarrow> wrap_up a = a"
  by (subst wrap_up.simps) simp

lemma planar_dist_swap:
  "sqrt ((vx p - pos_x m) * (vx p - pos_x m) + (vz p - pos_z m) * (vz p - pos_z m)) = planar_dist p m"
  unfolding planar_dist_def by (simp add: algebra_simps)

lemma unit_dir:
  assumes "d = sqrt (dx * dx + dz * dz)" "0 < d"
  shows "sqrt ((dx / d * v) * (dx / d * v) + (dz / d * v) * (dz / d * v)) = \<bar>v\<bar>"
proof -
  have d2: "d * d = dx * dx + dz * dz"
    unfolding assms(1) by simp
  have one: "(dx * dx + dz * dz) / (d * d) = 1"
    unfolding d2[symmetric] using assms(2) by simp
  have "(dx / d * v) * (dx / d * v) + (dz / d * v) * (dz / d * v)
      = (dx * dx + dz * dz) / (d * d) * (v * v)"
    using assms(2) by (simp add: field_simps)
  then have "(dx / d * v) * (dx / d * v) + (dz / d * v) * (dz / d * v) = v * v"
    by (simp only: one mult_1)
  then show ?thesis by (simp only: real_sqrt_abs2)
qed

lemma check_one_eq:
  "0 \<le> attackCooldown m \<Longrightarrow>
   check_one pp m = (if contributes pp m then (m\<lparr>attackCooldown := 3 / 2\<rparr>, True) else (m, False))"
  by (auto simp: check_one_def contributes_def planar_dist_swap Let_def ATTACK_RANGE_def
        ATTACK_COOLDOWN_def)

lemma castSpell_rejected:
  "name = ''frostbolt'' \<and> frostbolt_currentCd s > 0
     \<or> name = ''frostNova'' \<and> frostNova_currentCd s > 0
     \<or> spells_lookup name = None
   \<Longrightarrow> castSpell now name casterPos casterAngle casterPitch s = (s, False)"
  by (auto simp: castSpell_def spells_lookup_def split: if_splits)

lemma wrap_down_le: "wrap_down a \<le> pi"
  by (induction a rule: wrap_down.induct) (subst wrap_down.simps, simp)

lemma wrap_down_gt: "- pi < a \<Longrightarrow> - pi < wrap_down a"
  by (induction a rule: wrap_down.induct) (subst wrap_down.simps, simp)

lemma wrap_down_shift: "\<exists>k::int. wrap_down a = a + 2 * pi * of_int k"
proof (induction a rule: wrap_down.induct)
  case (1 a)
  show ?case
  proof (cases "a > pi")
    case True
    from 1[OF True] obtain k :: int where "wrap_down (a - pi * 2) = a - pi * 2 + 2 * pi * of_int k" by blast
    then have "wrap_down a = a + 2 * pi * of_int (k - 1)"
      using True by (subst wrap_down.simps) (simp add: algebra_simps)
    then show ?thesis by blast
  next
    case False
    then have "wrap_down a = a + 2 * pi * of_int 0" by (subst wrap_down.simps) simp
    then show ?thesis by blast
  qed
qed

lemma wrap_up_ge: "- pi \<le> wrap_up a"
  by (induction a rule: wrap_up.induct) (subst wrap_up.simps, simp)

lemma wrap_up_le: "a \<le> pi \<Longrightarrow> wrap_up a \<le> pi"
  by (induction a rule: wrap_up.induct) (subst wrap_up.simps, simp)

lemma wrap_up_shift: "\<exists>k::int. wrap_up a = a + 2 * pi * of_int k"
proof (induction a rule: wrap_up.induct)
  case (1 a)
  show ?case
  proof (cases "a < - pi")
    case True
    from 1[OF True] obtain k :: int where "wrap_up (a + pi * 2) = a + pi * 2 + 2 * pi * of_int k" by blast
    then have "wrap_up a = a + 2 * pi * of_int (k + 1)"
      using True by (subst wrap_up.simps) (simp add: algebra_simps)
    then show ?thesis by blast
  next
    case False
    then have "wrap_up a = a + 2 * pi * of_int 0" by (subst wrap_up.simps) simp
    then show ?thesis by blast
  qed
qed

lemma angle_norm_range: "- pi < angle_norm a \<and> angle_norm a \<le> pi"
proof -
  define q where "q = (a - pi) / (2 * pi)"
  have a: "a = pi + 2 * pi * q" by (simp add: q_def field_simps)
  have "of_int \<lceil>q\<rceil> - 1 < q" "q \<le> of_int \<lceil>q\<rceil>" by linarith+
  then have "2 * pi * (of_int \<lceil>q\<rceil> - 1) < 2 * pi * q" "2 * pi * q \<le> 2 * pi * of_int \<lceil>q\<rceil>"
    by (simp_all)
  then show ?thesis unfolding angle_norm_def q_def[symmetric] a by (simp add: algebra_simps)
qed

lemma angle_norm_id: "- pi < a \<Longrightarrow> a \<le> pi \<Longrightarrow> angle_norm a = a"
proof -
  assume h: "- pi < a" "a \<le> pi"
  have "(a - pi) / (2 * pi) \<le> 0" using h pi_gt_zero by (simp add: field_simps)
  moreover have "-1 < (a - pi) / (2 * pi)" using h pi_gt_zero by (simp add: field_simps)
  ultimately have "\<lceil>(a - pi) / (2 * pi)\<rceil> = 0" by (intro ceiling_unique) auto
  then show ?thesis by (simp add: angle_norm_def)
qed

lemma two_pi_apart:
  assumes "- pi \<le> x" "x \<le> pi" "- pi \<le> y" "y \<le> pi" "y = x + 2 * pi * of_int n"
  shows "x = y \<or> (\<bar>x\<bar> = pi \<and> \<bar>y\<bar> = pi)"
proof -
  define t where "t = 2 * pi * real_of_int n"
  have y: "y = x + t" using assms(5) by (simp add: t_def)
  consider "n = 0" | "n \<ge> 1" | "n \<le> -1" by linarith
  then show ?thesis
  proof cases
    case 1 then show ?thesis using assms by simp
  next
    case 2
    then have "(1::real) \<le> of_int n" by linarith
    then have "2 * pi * 1 \<le> t" unfolding t_def using pi_gt_zero by (intro mult_left_mono) auto
    then have "x = - pi" "y = pi" using assms(1-4) y by linarith+
    then show ?thesis using pi_gt_zero by simp
  next
    case 3
    then have "of_int n \<le> (-1::real)" by linarith
    then have "t \<le> 2 * pi * (-1)" unfolding t_def using pi_gt_zero by (intro mult_left_mono) auto
    then have "x = pi" "y = - pi" using assms(1-4) y by linarith+
    then show ?thesis using pi_gt_zero by simp
  qed
qed

lemma wrap_front:
  "\<bar>wrap_up (wrap_down a)\<bar> < pi / 2 \<longleftrightarrow> \<bar>angle_norm a\<bar> < pi / 2"
proof -
  define w where "w = wrap_up (wrap_down a)"
  obtain k :: int where k: "wrap_down a = a + 2 * pi * of_int k" using wrap_down_shift by blast
  obtain j :: int where j: "w = wrap_down a + 2 * pi * of_int j" unfolding w_def using wrap_up_shift by blast
  have r: "- pi \<le> w" "w \<le> pi" unfolding w_def using wrap_up_ge wrap_up_le[OF wrap_down_le] by auto
  have n: "- pi \<le> angle_norm a" "angle_norm a \<le> pi" using angle_norm_range[of a] by auto
  have "angle_norm a = w + 2 * pi * of_int (- \<lceil>(a - pi) / (2 * pi)\<rceil> - k - j)"
    unfolding angle_norm_def j k by (simp add: algebra_simps)
  from two_pi_apart[OF r n this] have "w = angle_norm a \<or> (\<bar>w\<bar> = pi \<and> \<bar>angle_norm a\<bar> = pi)" .
  then show ?thesis unfolding w_def[symmetric] using pi_gt_zero by auto
qed

lemma attack_one_hit_iff: "snd (attack_one pp pa rng d m) \<longleftrightarrow> melee_hits pp pa rng m"
  unfolding attack_one_def melee_hits_def Let_def wrap_front planar_dist_def by auto

lemma attack_one_miss: "\<not> melee_hits pp pa rng m \<Longrightarrow> fst (attack_one pp pa rng d m) = m"
  unfolding attack_one_def melee_hits_def Let_def wrap_front planar_dist_def by auto

lemma attack_one_hp:
  "melee_hits pp pa rng m \<Longrightarrow>
   hp (fst (attack_one pp pa rng d m)) = (if hp m - d \<le> 0 then 0 else hp m - d)"
  unfolding attack_one_def melee_hits_def Let_def wrap_front planar_dist_def by auto

lemma updateAnim_fields [simp]:
  "hp (updateAnim delta st t m) = hp m"
  "state (updateAnim delta st t m) = state m"
  "frozen (updateAnim delta st t m) = frozen m"
  "frozenPos (updateAnim delta st t m) = frozenPos m"
  "slowUntil (updateAnim delta st t m) = slowUntil m"
  "isBoss (updateAnim delta st t m) = isBoss m"
  "deathTime (updateAnim delta st t m) = deathTime m"
  "attackCooldown (updateAnim delta st t m) = attackCooldown m"
  "pos_x (updateAnim delta st t m) = pos_x m"
  "pos_z (updateAnim delta st t m) = pos_z m"
  "mtype (updateAnim delta st t m) = mtype m"
  "gid (updateAnim delta st t m) = gid m"
  "mtime (updateAnim delta st t m) = mtime m"
  by (simp_all add: updateAnim_def)

lemma alive_step_hp: "hp (alive_step g r delta pp m) = hp m"
  by (simp add: alive_step_def Let_def if_distrib[of hp] split del: if_split cong del: if_weak_cong)

lemma alive_step_frozen: "frozen (alive_step g r delta pp m) = frozen m"
  by (simp add: alive_step_def Let_def if_distrib[of frozen] split del: if_split cong del: if_weak_cong)

lemma alive_step_frozenPos: "frozenPos (alive_step g r delta pp m) = frozenPos m"
  by (simp add: alive_step_def Let_def if_distrib[of frozenPos] split del: if_split cong del: if_weak_cong)

lemma alive_step_slowUntil: "slowUntil (alive_step g r delta pp m) = slowUntil m"
  by (simp add: alive_step_def Let_def if_distrib[of slowUntil] split del: if_split cong del: if_weak_cong)

lemma alive_step_isBoss: "isBoss (alive_step g r delta pp m) = isBoss m"
  by (simp add: alive_step_def Let_def if_distrib[of isBoss] split del: if_split cong del: if_weak_cong)

lemma alive_step_deathTime: "deathTime (alive_step g r delta pp m) = deathTime m"
  by (simp add: alive_step_def Let_def if_distrib[of deathTime] split del: if_split cong del: if_weak_cong)

lemma alive_step_cooldown: "attackCooldown (alive_step g r delta pp m) = max 0 (attackCooldown m - delta)"
  by (simp add: alive_step_def Let_def if_distrib[of attackCooldown] split del: if_split cong del: if_weak_cong)

lemma alive_step_state:
  "state (alive_step g r delta pp m) =
     (if planar_dist pp m < (if isBoss m then 40 else 12)
      then (if planar_dist pp m < (if isBoss m then 8 else 2) then Attack else Chase)
      else Idle)"
  by (simp add: alive_step_def Let_def if_distrib[of state] planar_dist_swap AGGRO_RANGE_def
        ATTACK_RANGE_def split del: if_split cong del: if_weak_cong)

lemma alive_step_chase_x:
  assumes "planar_dist pp m < (if isBoss m then 40 else 12)"
    and "\<not> planar_dist pp m < (if isBoss m then 8 else 2)"
  shows "pos_x (alive_step g r delta pp m) =
           pos_x m + (vx pp - pos_x m) / planar_dist pp m * tspeed (mtype m) * delta"
  using assms
  by (cases "isBoss m")
     (simp_all add: alive_step_def Let_def planar_dist_swap AGGRO_RANGE_def ATTACK_RANGE_def
        split del: if_split cong del: if_weak_cong)

lemma alive_step_chase_z:
  assumes "planar_dist pp m < (if isBoss m then 40 else 12)"
    and "\<not> planar_dist pp m < (if isBoss m then 8 else 2)"
  shows "pos_z (alive_step g r delta pp m) =
           pos_z m + (vz pp - pos_z m) / planar_dist pp m * tspeed (mtype m) * delta"
  using assms
  by (cases "isBoss m")
     (simp_all add: alive_step_def Let_def planar_dist_swap AGGRO_RANGE_def ATTACK_RANGE_def
        split del: if_split cong del: if_weak_cong)


lemma planar_dist_mtime [simp]: "planar_dist pp (m\<lparr>mtime := t\<rparr>) = planar_dist pp m"
  by (simp add: planar_dist_def)

lemma freeze_mark_fields [simp]:
  "hp (freeze_mark now m) = hp m"
  "state (freeze_mark now m) = state m"
  "deathTime (freeze_mark now m) = deathTime m"
  "attackCooldown (freeze_mark now m) = attackCooldown m"
  "pos_x (freeze_mark now m) = pos_x m"
  "pos_z (freeze_mark now m) = pos_z m"
  "isBoss (freeze_mark now m) = isBoss m"
  "slowUntil (freeze_mark now m) = slowUntil m"
  "mtime (freeze_mark now m) = mtime m"
  by (simp_all add: freeze_mark_def Let_def)

lemma snap_back_fields [simp]:
  "hp (snap_back m) = hp m"
  "state (snap_back m) = state m"
  "deathTime (snap_back m) = deathTime m"
  "attackCooldown (snap_back m) = attackCooldown m"
  "frozen (snap_back m) = frozen m"
  "frozenPos (snap_back m) = frozenPos m"
  "isBoss (snap_back m) = isBoss m"
  "slowUntil (snap_back m) = slowUntil m"
  by (simp_all add: snap_back_def split: option.splits)

lemma dead_step_fields [simp]:
  "hp (dead_step delta m) = hp m"
  "state (dead_step delta m) = state m"
  "deathTime (dead_step delta m) = deathTime m + delta"
  "attackCooldown (dead_step delta m) = attackCooldown m"
  "frozen (dead_step delta m) = frozen m"
  "frozenPos (dead_step delta m) = frozenPos m"
  "isBoss (dead_step delta m) = isBoss m"
  "pos_x (dead_step delta m) = pos_x m"
  "pos_z (dead_step delta m) = pos_z m"
  "gid (dead_step delta m) = gid m"
  by (simp_all add: dead_step_def Let_def)

lemma update_one_dead:
  "state m = Dead \<Longrightarrow>
   update_one g r delta pp m =
     (if deathTime m + delta > removeTime m then None
      else Some (dead_step delta (m\<lparr>mtime := mtime m + delta\<rparr>)))"
  by (simp add: update_one_def Let_def removeTime_def)

lemma update_one_alive:
  "state m \<noteq> Dead \<Longrightarrow>
   update_one g r delta pp m = Some (alive_step g r delta pp (m\<lparr>mtime := mtime m + delta\<rparr>))"
  by (simp add: update_one_def Let_def)

lemma alive_step_not_dead: "state (alive_step g r delta pp m) \<noteq> Dead"
  by (simp add: alive_step_state)

lemma step_dead: "state m = Dead \<Longrightarrow> step e m = Some m' \<Longrightarrow> state m' = Dead"
  by (cases e)
     (auto simp: attack_one_def nova_one_def check_one_def wrapped_one_def update_one_dead
           split: if_splits)

lemma run_dead: "state m = Dead \<Longrightarrow> run es m = Some m' \<Longrightarrow> state m' = Dead"
proof (induction es arbitrary: m)
  case Nil
  then show ?case by simp
next
  case (Cons e es)
  then show ?case by (auto split: option.splits dest: step_dead)
qed

lemma step_hp_state_ok: "hp_state_ok m \<Longrightarrow> step e m = Some m' \<Longrightarrow> hp_state_ok m'"
  by (cases e)
     (auto simp: hp_state_ok_def attack_one_def nova_one_def check_one_def bolt_damage_def
           wrapped_one_def update_one_def Let_def alive_step_not_dead alive_step_hp
           split: if_splits)

lemma run_hp_state_ok: "hp_state_ok m \<Longrightarrow> run es m = Some m' \<Longrightarrow> hp_state_ok m'"
proof (induction es arbitrary: m)
  case Nil
  then show ?case by simp
next
  case (Cons e es)
  then show ?case by (auto split: option.splits dest: step_hp_state_ok)
qed

lemma step_hp_le:
  "hp_state_ok m \<Longrightarrow> nonneg_damage e \<Longrightarrow> step e m = Some m' \<Longrightarrow> hp m' \<le> hp m"
  by (cases e)
     (auto simp: hp_state_ok_def attack_one_def nova_one_def check_one_def bolt_damage_def
           wrapped_one_def update_one_def Let_def frostNova_damage_def alive_step_hp
           split: if_splits)

lemma run_hp_le:
  "hp_state_ok m \<Longrightarrow> \<forall>e \<in> set es. nonneg_damage e \<Longrightarrow> run es m = Some m' \<Longrightarrow> hp m' \<le> hp m"
proof (induction es arbitrary: m)
  case Nil
  then show ?case by simp
next
  case (Cons e es)
  from Cons.prems obtain m1 where s: "step e m = Some m1" and r: "run es m1 = Some m'"
    by (auto split: option.splits)
  have "hp m1 \<le> hp m" using step_hp_le[OF Cons.prems(1) _ s] Cons.prems(2) by simp
  moreover have "hp m' \<le> hp m1"
    using Cons.IH[OF step_hp_state_ok[OF Cons.prems(1) s] _ r] Cons.prems(2) by simp
  ultimately show ?case by simp
qed

lemma eligible_def2: "eligible p m \<longleftrightarrow> state m \<noteq> Dead \<and> in_hit_range p m"
  by (simp add: eligible_def in_hit_range_def hitRange_def planar_dist_def Let_def)

lemma hit_detect_length [simp]: "length (fst (hit_detect now p ms)) = length ms"
  by (induction ms) (auto split: prod.splits)

lemma hit_detect_miss:
  "\<forall>m \<in> set ms. \<not> eligible p m \<Longrightarrow> hit_detect now p ms = (ms, False)"
  by (induction ms) (auto simp: eligible_def2)

lemma hit_detect_hit:
  "k < length ms \<Longrightarrow> eligible p (ms ! k) \<Longrightarrow> \<forall>j < k. \<not> eligible p (ms ! j)
   \<Longrightarrow> hit_detect now p ms = (ms[k := bolt_damage now p (ms ! k)], True)"
proof (induction ms arbitrary: k)
  case Nil
  then show ?case by simp
next
  case (Cons m ms)
  show ?case
  proof (cases k)
    case 0
    then show ?thesis using Cons.prems by (simp add: eligible_def2)
  next
    case (Suc k')
    have m: "\<not> eligible p m" using Cons.prems(3) Suc by auto
    have "hit_detect now p ms = (ms[k' := bolt_damage now p (ms ! k')], True)"
    proof (rule Cons.IH)
      show "k' < length ms" using Cons.prems(1) Suc by simp
      show "eligible p (ms ! k')" using Cons.prems(2) Suc by simp
      show "\<forall>j<k'. \<not> eligible p (ms ! j)"
      proof (intro allI impI)
        fix j assume "j < k'"
        then have "Suc j < k" using Suc by simp
        then have "\<not> eligible p ((m # ms) ! Suc j)" using Cons.prems(3) by blast
        then show "\<not> eligible p (ms ! j)" by simp
      qed
    qed
    then show ?thesis using m Suc by (auto simp: eligible_def2)
  qed
qed

lemma first_eligible:
  assumes "\<exists>m \<in> set ms. eligible p m"
  shows "\<exists>k < length ms. eligible p (ms ! k) \<and> (\<forall>j < k. \<not> eligible p (ms ! j))"
proof -
  from assms obtain i where i: "i < length ms" "eligible p (ms ! i)"
    by (auto simp: in_set_conv_nth)
  define k where "k = (LEAST n. n < length ms \<and> eligible p (ms ! n))"
  have a: "k < length ms \<and> eligible p (ms ! k)"
    unfolding k_def by (rule LeastI[of "\<lambda>n. n < length ms \<and> eligible p (ms ! n)" i]) (use i in simp)
  have b: "\<not> eligible p (ms ! j)" if "j < k" for j
  proof
    assume e: "eligible p (ms ! j)"
    have "j < length ms" using that a by simp
    then have "k \<le> j" unfolding k_def using e by (intro Least_le) simp
    then show False using that by simp
  qed
  show ?thesis using a b by blast
qed

lemma hit_detect_flag: "snd (hit_detect now p ms) \<longleftrightarrow> (\<exists>m \<in> set ms. eligible p m)"
proof (cases "\<exists>m \<in> set ms. eligible p m")
  case True
  from first_eligible[OF True] obtain k where "k < length ms" "eligible p (ms ! k)"
    "\<forall>j < k. \<not> eligible p (ms ! j)" by blast
  from hit_detect_hit[OF this] True show ?thesis by simp
next
  case False
  then show ?thesis by (simp add: hit_detect_miss)
qed

lemma hit_detect_nth:
  "i < length ms \<Longrightarrow>
   fst (hit_detect now p ms) ! i = ms ! i
   \<or> (eligible p (ms ! i) \<and> fst (hit_detect now p ms) ! i = bolt_damage now p (ms ! i))"
proof (cases "\<exists>m \<in> set ms. eligible p m")
  case True
  assume i: "i < length ms"
  from first_eligible[OF True] obtain k where k: "k < length ms" "eligible p (ms ! k)"
    "\<forall>j < k. \<not> eligible p (ms ! j)" by blast
  from hit_detect_hit[OF k] have "fst (hit_detect now p ms) = ms[k := bolt_damage now p (ms ! k)]"
    by simp
  then show ?thesis using i k(1,2) by (cases "i = k") simp_all
next
  case False
  then show ?thesis by (simp add: hit_detect_miss)
qed

lemma attack_one_lethal:
  "snd (attack_one pp pa rng d m) \<Longrightarrow> hp m - d \<le> 0 \<Longrightarrow>
   hp (fst (attack_one pp pa rng d m)) = 0 \<and> state (fst (attack_one pp pa rng d m)) = Dead
   \<and> deathTime (fst (attack_one pp pa rng d m)) = 0"
  by (auto simp: attack_one_def Let_def split: if_splits)

lemma bolt_damage_lethal:
  "hp m - p_damage p \<le> 0 \<Longrightarrow>
   hp (bolt_damage now p m) = 0 \<and> state (bolt_damage now p m) = Dead
   \<and> deathTime (bolt_damage now p m) = 0"
  by (simp add: bolt_damage_def Let_def)

lemma nova_one_lethal:
  "state m \<noteq> Dead \<Longrightarrow> planar_dist c m < frostNova_range \<Longrightarrow> hp m - frostNova_damage \<le> 0 \<Longrightarrow>
   hp (nova_one now c m) = 0 \<and> state (nova_one now c m) = Dead \<and> deathTime (nova_one now c m) = 0"
  by (simp add: nova_one_def Let_def planar_dist_def)

lemma map_filter_append:
  "List.map_filter f (xs @ ys) = List.map_filter f xs @ List.map_filter f ys"
  by (simp add: List.map_filter_def)

lemma map_filter_cong_set:
  "(\<And>x. x \<in> set xs \<Longrightarrow> f x = g x) \<Longrightarrow> List.map_filter f xs = List.map_filter g xs"
  by (induction xs) (auto simp: List.map_filter_simps split: option.splits)

lemma map_map_filter:
  "map h (List.map_filter f xs) = List.map_filter (\<lambda>x. map_option h (f x)) xs"
  by (induction xs) (auto simp: List.map_filter_simps split: option.splits)

lemma update_at_monsters:
  "monsters (update_at g rnd delta pp i s) =
     (case update_one g (rnd i) delta pp (monsters s ! i) of
        None \<Rightarrow> take i (monsters s) @ drop (Suc i) (monsters s)
      | Some m' \<Rightarrow> (monsters s)[i := m'])"
  by (simp add: update_at_eq split: option.splits)

lemma update_loop_monsters:
  "n \<le> length (monsters s) \<Longrightarrow>
   monsters (update_loop g rnd delta pp n s) =
     List.map_filter (\<lambda>i. update_one g (rnd i) delta pp (monsters s ! i)) [0..<n]
       @ drop n (monsters s)"
proof (induction n arbitrary: s)
  case 0
  then show ?case by (simp add: List.map_filter_simps)
next
  case (Suc n)
  define s1 where "s1 = update_at g rnd delta pp n s"
  define f where "f = (\<lambda>i. update_one g (rnd i) delta pp (monsters s ! i))"
  have n: "n < length (monsters s)" using Suc.prems by simp
  have ms1: "monsters s1 =
      (case f n of None \<Rightarrow> take n (monsters s) @ drop (Suc n) (monsters s)
                 | Some m' \<Rightarrow> (monsters s)[n := m'])"
    by (simp add: s1_def f_def update_at_monsters)
  have len: "n \<le> length (monsters s1)"
    using n by (auto simp: ms1 split: option.splits)
  have same: "monsters s1 ! i = monsters s ! i" if "i < n" for i
    using that n by (simp add: ms1 nth_append split: option.splits)
  have dr: "drop n (monsters s1) =
      (case f n of None \<Rightarrow> [] | Some m' \<Rightarrow> [m']) @ drop (Suc n) (monsters s)"
    using n by (simp add: ms1 drop_update_swap Cons_nth_drop_Suc[symmetric] upd_conv_take_nth_drop
        split: option.splits)
  have "monsters (update_loop g rnd delta pp (Suc n) s) = monsters (update_loop g rnd delta pp n s1)"
    by (simp add: s1_def)
  also have "\<dots> = List.map_filter (\<lambda>i. update_one g (rnd i) delta pp (monsters s1 ! i)) [0..<n]
       @ drop n (monsters s1)"
    by (rule Suc.IH[OF len])
  also have "List.map_filter (\<lambda>i. update_one g (rnd i) delta pp (monsters s1 ! i)) [0..<n]
      = List.map_filter f [0..<n]"
    by (rule map_filter_cong_set) (simp add: f_def same)
  finally have "monsters (update_loop g rnd delta pp (Suc n) s) =
      List.map_filter f [0..<n] @ (case f n of None \<Rightarrow> [] | Some m' \<Rightarrow> [m'])
        @ drop (Suc n) (monsters s)"
    by (simp add: dr)
  moreover have "List.map_filter f [0..<Suc n] =
      List.map_filter f [0..<n] @ (case f n of None \<Rightarrow> [] | Some m' \<Rightarrow> [m'])"
    by (simp add: map_filter_append List.map_filter_simps split: option.splits)
  ultimately show ?case by (simp add: f_def)
qed

lemma update_monsters:
  "monsters (update g rnd delta pp s) =
     List.map_filter (\<lambda>i. update_one g (rnd i) delta pp (monsters s ! i)) [0..<length (monsters s)]"
  by (simp add: update_def update_loop_monsters)

lemma wrapped_update_monsters:
  "monsters (wrapped_update g rnd now delta pp s) =
     List.map_filter (\<lambda>i. wrapped_one g (rnd i) now delta pp (monsters s ! i))
       [0..<length (monsters s)]"
proof -
  have "List.map_filter
          (\<lambda>i. map_option snap_back
                 (update_one g (rnd i) delta pp (map (freeze_mark now) (monsters s) ! i)))
          [0..<length (monsters s)]
      = List.map_filter (\<lambda>i. wrapped_one g (rnd i) now delta pp (monsters s ! i))
          [0..<length (monsters s)]"
    by (rule map_filter_cong_set) (simp add: wrapped_one_def)
  then show ?thesis
    by (simp add: wrapped_update_def Let_def update_monsters map_map_filter)
qed

lemma step_keeps_mark:
  assumes "\<not> is_frame e" and "step e m = Some m'"
  shows "frozen m' = frozen m \<and> frozenPos m' = frozenPos m"
  using assms
  by (cases e)
     (auto simp: attack_one_def nova_one_def check_one_def bolt_damage_def Let_def
           split: if_splits)

lemma frame_frozen:
  assumes "isFrozen now m" and "frozen m" and "frozenPos m = Some fp"
  shows "\<exists>m'. wrapped_one g r now delta pp m = Some m' \<and> pos_x m' = fst fp \<and> pos_z m' = snd fp
            \<and> frozen m' \<and> frozenPos m' = Some fp"
proof -
  have alive: "state m \<noteq> Dead" using assms(1) by (auto simp: isFrozen_def split: option.splits)
  have fm: "freeze_mark now m = m\<lparr>frozenPos := Some fp\<rparr>"
    using assms by (simp add: freeze_mark_def Let_def)
  define a where "a = alive_step g r delta pp (freeze_mark now m\<lparr>mtime := mtime (freeze_mark now m) + delta\<rparr>)"
  have u: "update_one g r delta pp (freeze_mark now m) = Some a"
    using alive by (simp add: update_one_alive a_def)
  have fa: "frozen a" "frozenPos a = Some fp"
    using assms(2) by (simp_all add: a_def alive_step_frozen alive_step_frozenPos fm)
  have "wrapped_one g r now delta pp m = Some (snap_back a)"
    by (simp add: wrapped_one_def u)
  moreover have "pos_x (snap_back a) = fst fp" "pos_z (snap_back a) = snd fp"
    using fa by (simp_all add: snap_back_def)
  moreover have "frozen (snap_back a)" "frozenPos (snap_back a) = Some fp"
    using fa by simp_all
  ultimately show ?thesis by blast
qed

lemma frozen_ok_marked:
  "frozen m \<Longrightarrow> frozenPos m = Some fp \<Longrightarrow> frozen_ok fp es m"
proof (induction es arbitrary: m)
  case Nil
  then show ?case by simp
next
  case (Cons e es)
  show ?case
  proof (cases e)
    case (Frame g r now delta pp)
    show ?thesis
    proof (cases "isFrozen now m")
      case True
      from frame_frozen[OF True Cons.prems, of g r delta pp] obtain m' where
        m': "wrapped_one g r now delta pp m = Some m'" "pos_x m' = fst fp" "pos_z m' = snd fp"
          "frozen m'" "frozenPos m' = Some fp" by blast
      from Cons.IH[OF m'(4,5)] m' True Frame show ?thesis by simp
    next
      case False
      then show ?thesis using Frame by simp
    qed
  next
    case (Melee pp pa rng d)
    then have "frozen_ok fp es (fst (attack_one pp pa rng d m))"
      using step_keeps_mark[of e m] Cons.prems by (intro Cons.IH) auto
    then show ?thesis using Melee by simp
  next
    case (Bolt now p)
    then have "frozen_ok fp es (the (step e m))"
      using step_keeps_mark[of e m] Cons.prems by (intro Cons.IH) auto
    then show ?thesis using Bolt by simp
  next
    case (Nova now c)
    then have "frozen_ok fp es (nova_one now c m)"
      using step_keeps_mark[of e m] Cons.prems by (intro Cons.IH) auto
    then show ?thesis using Nova by simp
  next
    case (Check pp)
    then have "frozen_ok fp es (fst (check_one pp m))"
      using step_keeps_mark[of e m] Cons.prems by (intro Cons.IH) auto
    then show ?thesis using Check by simp
  qed
qed

lemma step_Bolt_eligible: "step (Bolt now p) m = Some (if eligible p m then bolt_damage now p m else m)"
  by (simp add: eligible_def2)

lemma projectile_at_monsters:
  "monsters (projectile_at now delta i s) =
     fst (hit_detect now (advance delta (projectiles s ! i)) (monsters s))"
  by (simp add: projectile_at_def Let_def split: prod.splits)

lemma projectile_at_projectiles:
  "projectiles (projectile_at now delta i s) =
     (if snd (hit_detect now (advance delta (projectiles s ! i)) (monsters s))
         \<or> p_traveled (advance delta (projectiles s ! i)) > p_range (advance delta (projectiles s ! i))
      then take i (projectiles s) @ drop (Suc i) (projectiles s)
      else (projectiles s)[i := advance delta (projectiles s ! i)])"
  by (simp add: projectile_at_def Let_def split: prod.splits)

lemma projectile_loop_runs:
  "n \<le> length (projectiles s) \<Longrightarrow>
   length (monsters (projectile_loop now delta n s)) = length (monsters s)
   \<and> (\<forall>i < length (monsters s). \<exists>es.
         (\<forall>e \<in> set es. \<exists>j < n. e = Bolt now (advance delta (projectiles s ! j)))
       \<and> run es (monsters s ! i) = Some (monsters (projectile_loop now delta n s) ! i))"
proof (induction n arbitrary: s)
  case 0
  show ?case
  proof (intro conjI allI impI)
    fix i assume "i < length (monsters s)"
    have "(\<forall>e \<in> set []. \<exists>j < 0. e = Bolt now (advance delta (projectiles s ! j)))
        \<and> run [] (monsters s ! i) = Some (monsters (projectile_loop now delta 0 s) ! i)"
      by simp
    then show "\<exists>es. (\<forall>e \<in> set es. \<exists>j < 0. e = Bolt now (advance delta (projectiles s ! j)))
        \<and> run es (monsters s ! i) = Some (monsters (projectile_loop now delta 0 s) ! i)"
      by blast
  qed simp
next
  case (Suc n)
  define p where "p = advance delta (projectiles s ! n)"
  define s1 where "s1 = projectile_at now delta n s"
  have n: "n < length (projectiles s)" using Suc.prems by simp
  have ms1: "monsters s1 = fst (hit_detect now p (monsters s))"
    by (simp add: s1_def p_def projectile_at_monsters)
  have len1: "length (monsters s1) = length (monsters s)" by (simp add: ms1)
  have n1: "n \<le> length (projectiles s1)"
    using n by (auto simp: s1_def projectile_at_projectiles)
  have same: "projectiles s1 ! j = projectiles s ! j" if "j < n" for j
    using that n by (simp add: s1_def projectile_at_projectiles nth_append)
  have loop: "projectile_loop now delta (Suc n) s = projectile_loop now delta n s1"
    by (simp add: s1_def)
  from Suc.IH[OF n1] have
    ih_len: "length (monsters (projectile_loop now delta n s1)) = length (monsters s1)" and
    ih: "\<forall>i < length (monsters s1). \<exists>es.
         (\<forall>e \<in> set es. \<exists>j < n. e = Bolt now (advance delta (projectiles s1 ! j)))
       \<and> run es (monsters s1 ! i) = Some (monsters (projectile_loop now delta n s1) ! i)"
    by blast+
  show ?case
  proof (intro conjI allI impI)
    show "length (monsters (projectile_loop now delta (Suc n) s)) = length (monsters s)"
      by (simp only: loop ih_len len1)
  next
    fix i assume i: "i < length (monsters s)"
    with ih len1 obtain es where
      es: "\<forall>e \<in> set es. \<exists>j < n. e = Bolt now (advance delta (projectiles s1 ! j))"
        "run es (monsters s1 ! i) = Some (monsters (projectile_loop now delta n s1) ! i)"
      by auto
    have es': "\<forall>e \<in> set es. \<exists>j < Suc n. e = Bolt now (advance delta (projectiles s ! j))"
      using es(1) same by (metis less_Suc_eq)
    have st: "step (Bolt now p) (monsters s ! i) = Some (monsters s1 ! i)
            \<or> monsters s1 ! i = monsters s ! i"
      using hit_detect_nth[OF i, of now p] by (auto simp: ms1 step_Bolt_eligible simp del: step.simps)
    then show "\<exists>es. (\<forall>e \<in> set es. \<exists>j < Suc n. e = Bolt now (advance delta (projectiles s ! j)))
        \<and> run es (monsters s ! i) = Some (monsters (projectile_loop now delta (Suc n) s) ! i)"
    proof
      assume a: "step (Bolt now p) (monsters s ! i) = Some (monsters s1 ! i)"
      have "(\<forall>e \<in> set (Bolt now p # es). \<exists>j < Suc n. e = Bolt now (advance delta (projectiles s ! j)))
          \<and> run (Bolt now p # es) (monsters s ! i) = Some (monsters (projectile_loop now delta (Suc n) s) ! i)"
        using es' es(2) a unfolding loop by (auto simp: p_def simp del: step.simps)
      then show ?thesis by blast
    next
      assume "monsters s1 ! i = monsters s ! i"
      then have "(\<forall>e \<in> set es. \<exists>j < Suc n. e = Bolt now (advance delta (projectiles s ! j)))
          \<and> run es (monsters s ! i) = Some (monsters (projectile_loop now delta (Suc n) s) ! i)"
        using es' es(2) unfolding loop by simp
      then show ?thesis by blast
    qed
  qed
qed

lemma effect_loop_monsters [simp]: "monsters (effect_loop delta n s) = monsters s"
  by (induction n arbitrary: s) (simp_all add: effect_at_def Let_def)

lemma effect_loop_projectiles [simp]: "projectiles (effect_loop delta n s) = projectiles s"
  by (induction n arbitrary: s) (simp_all add: effect_at_def Let_def)

lemma spells_update_runs:
  "length (monsters (spells_update_body now delta s)) = length (monsters s)
   \<and> (\<forall>i < length (monsters s). \<exists>es.
         (\<forall>e \<in> set es. \<exists>j < length (projectiles s). e = Bolt now (advance delta (projectiles s ! j)))
       \<and> run es (monsters s ! i) = Some (monsters (spells_update_body now delta s) ! i))"
proof -
  define s1 where "s1 = s\<lparr>frostbolt_currentCd := max 0 (frostbolt_currentCd s - delta),
                 frostNova_currentCd := max 0 (frostNova_currentCd s - delta)\<rparr>"
  have a: "monsters (spells_update_body now delta s) = monsters (projectile_loop now delta (length (projectiles s1)) s1)"
    by (simp add: spells_update_body_def decay_cooldowns_def Let_def s1_def)
  have b: "monsters s1 = monsters s" "projectiles s1 = projectiles s" by (simp_all add: s1_def)
  from projectile_loop_runs[of "length (projectiles s1)" s1 now delta]
  show ?thesis unfolding a b by simp
qed


lemma list_all_map_filter:
  "(\<And>x y. x \<in> set xs \<Longrightarrow> f x = Some y \<Longrightarrow> P y) \<Longrightarrow> list_all P (List.map_filter f xs)"
  by (induction xs) (auto simp: List.map_filter_simps split: option.splits)

lemma update_one_hp_state_ok:
  "hp_state_ok m \<Longrightarrow> update_one g r delta pp m = Some m' \<Longrightarrow> hp_state_ok m'"
  by (auto simp: hp_state_ok_def update_one_def Let_def alive_step_hp split: if_splits)

lemma hp_ok_attack:
  assumes "list_all hp_state_ok (monsters s)"
  shows "list_all hp_state_ok (monsters (fst (attackMonstersInRange pp pa rng d s)))"
proof -
  have "hp_state_ok (fst (attack_one pp pa rng d m))" if "hp_state_ok m" for m
    using step_hp_state_ok[OF that, of "Melee pp pa rng d"] by simp
  then show ?thesis
    using assms by (simp add: attackMonstersInRange_monsters list_all_iff)
qed

lemma hp_ok_check:
  assumes "list_all hp_state_ok (monsters s)"
  shows "list_all hp_state_ok (monsters (fst (checkPlayerDamage pp s)))"
proof -
  have "hp_state_ok (fst (check_one pp m))" if "hp_state_ok m" for m
    using step_hp_state_ok[OF that, of "Check pp"] by simp
  then show ?thesis
    using assms by (simp add: checkPlayerDamage_def check_loop_eq list_all_iff)
qed

lemma hp_ok_nova:
  assumes "list_all hp_state_ok (monsters s)"
  shows "list_all hp_state_ok (monsters (spawnFrostNova now c s))"
proof -
  have "hp_state_ok (nova_one now c m)" if "hp_state_ok m" for m
    using step_hp_state_ok[OF that, of "Nova now c"] by simp
  then show ?thesis
    using assms by (simp add: spawnFrostNova_def list_all_iff)
qed

lemma castSpell_monsters:
  "monsters (fst (castSpell now name c a pitch s)) = monsters s
   \<or> monsters (fst (castSpell now name c a pitch s)) = monsters (spawnFrostNova now c s)"
  by (auto simp: castSpell_def spawnFrostbolt_def spawnFrostNova_def
        split: option.splits spell_ref.splits)

lemma hp_ok_cast:
  assumes "list_all hp_state_ok (monsters s)"
  shows "list_all hp_state_ok (monsters (fst (castSpell now name c a pitch s)))"
  using castSpell_monsters[of now name c a pitch s] hp_ok_nova[OF assms, of now c] assms
  by auto

lemma hp_ok_spells_update:
  assumes "list_all hp_state_ok (monsters s)"
  shows "list_all hp_state_ok (monsters (spells_update_body now delta s))"
proof -
  from spells_update_runs[of now delta s] have
    len: "length (monsters (spells_update_body now delta s)) = length (monsters s)" and
    rn: "\<forall>i < length (monsters s). \<exists>es.
         run es (monsters s ! i) = Some (monsters (spells_update_body now delta s) ! i)"
    by blast+
  show ?thesis
    unfolding list_all_length
  proof (intro allI impI)
    fix i assume "i < length (monsters (spells_update_body now delta s))"
    then have i: "i < length (monsters s)" by (simp add: len)
    with rn obtain es where "run es (monsters s ! i) = Some (monsters (spells_update_body now delta s) ! i)"
      by blast
    moreover have "hp_state_ok (monsters s ! i)" using assms i by (simp add: list_all_length)
    ultimately show "hp_state_ok (monsters (spells_update_body now delta s) ! i)"
      by (rule run_hp_state_ok[rotated])
  qed
qed

lemma hp_ok_wrapped_update:
  assumes "list_all hp_state_ok (monsters s)"
  shows "list_all hp_state_ok (monsters (wrapped_update g rnd now delta pp s))"
  unfolding wrapped_update_monsters
proof (rule list_all_map_filter)
  fix i y assume "i \<in> set [0..<length (monsters s)]"
    and w: "wrapped_one g (rnd i) now delta pp (monsters s ! i) = Some y"
  then have "hp_state_ok (monsters s ! i)" using assms by (simp add: list_all_length)
  then show "hp_state_ok y"
    using step_hp_state_ok[of "monsters s ! i" "Frame g (rnd i) now delta pp" y] w by simp
qed

lemma hp_ok_update:
  assumes "list_all hp_state_ok (monsters s)"
  shows "list_all hp_state_ok (monsters (update g rnd delta pp s))"
  unfolding update_monsters
proof (rule list_all_map_filter)
  fix i y assume "i \<in> set [0..<length (monsters s)]"
    and w: "update_one g (rnd i) delta pp (monsters s ! i) = Some y"
  then have "hp_state_ok (monsters s ! i)" using assms by (simp add: list_all_length)
  then show "hp_state_ok y" using w by (rule update_one_hp_state_ok)
qed

lemma hp_ok_spawn:
  "ty \<in> set MONSTER_TYPES \<Longrightarrow> hp_state_ok (new_monster ty x y z t gd)"
  "hp_state_ok (new_boss bossY gd)"
  by (auto simp: MONSTER_TYPES_def hp_state_ok_def new_monster_def new_boss_def)

lemma spells_update_hp_le:
  assumes "list_all hp_state_ok (monsters s)" and "\<forall>q \<in> set (projectiles s). 0 \<le> p_damage q"
    and i: "i < length (monsters s)"
  shows "hp (monsters (spells_update_body now delta s) ! i) \<le> hp (monsters s ! i)"
proof -
  from spells_update_runs[of now delta s] i obtain es where
    es: "\<forall>e \<in> set es. \<exists>j < length (projectiles s). e = Bolt now (advance delta (projectiles s ! j))"
      "run es (monsters s ! i) = Some (monsters (spells_update_body now delta s) ! i)"
    by blast
  have "nonneg_damage e" if "e \<in> set es" for e
  proof -
    from es(1) that obtain j where j: "j < length (projectiles s)"
      "e = Bolt now (advance delta (projectiles s ! j))" by blast
    then have "0 \<le> p_damage (projectiles s ! j)" using assms(2) by simp
    then show ?thesis using j(2) by (simp add: advance_def)
  qed
  then have "\<forall>e \<in> set es. nonneg_damage e" by blast
  moreover have "hp_state_ok (monsters s ! i)" using assms(1) i by (simp add: list_all_length)
  ultimately show ?thesis using es(2) run_hp_le by blast
qed

lemma step_cooldown_nonneg:
  "0 \<le> attackCooldown m \<Longrightarrow> step e m = Some m' \<Longrightarrow> 0 \<le> attackCooldown m'"
  by (cases e)
     (auto simp: attack_one_def nova_one_def check_one_def bolt_damage_def wrapped_one_def
           update_one_def Let_def alive_step_cooldown ATTACK_COOLDOWN_def
           split: if_splits)

lemma run_cooldown_nonneg:
  "0 \<le> attackCooldown m \<Longrightarrow> run es m = Some m' \<Longrightarrow> 0 \<le> attackCooldown m'"
proof (induction es arbitrary: m)
  case Nil
  then show ?case by simp
next
  case (Cons e es)
  then show ?case by (auto split: option.splits dest: step_cooldown_nonneg)
qed

lemma spawn_cooldown:
  "attackCooldown (new_monster ty x y z t gd) = 0" "attackCooldown (new_boss bossY gd) = 0"
  by (simp_all add: new_monster_def new_boss_def)

lemma update_one_hp: "update_one g r delta pp m = Some m' \<Longrightarrow> hp m' = hp m"
  by (auto simp: update_one_def Let_def alive_step_hp split: if_splits)

lemma wrapped_one_hp: "wrapped_one g r now delta pp m = Some m' \<Longrightarrow> hp m' = hp m"
  using update_one_hp[of g r delta pp "freeze_mark now m"]
  by (auto simp: wrapped_one_def)

lemma update_hp:
  "list_all (\<lambda>m'. \<exists>m \<in> set (monsters s). hp m' = hp m) (monsters (update g rnd delta pp s))"
  unfolding update_monsters
proof (rule list_all_map_filter)
  fix i y assume "i \<in> set [0..<length (monsters s)]"
    and "update_one g (rnd i) delta pp (monsters s ! i) = Some y"
  then show "\<exists>m \<in> set (monsters s). hp y = hp m"
    using update_one_hp nth_mem[of i "monsters s"] by auto
qed

lemma wrapped_update_hp:
  "list_all (\<lambda>m'. \<exists>m \<in> set (monsters s). hp m' = hp m)
     (monsters (wrapped_update g rnd now delta pp s))"
  unfolding wrapped_update_monsters
proof (rule list_all_map_filter)
  fix i y assume "i \<in> set [0..<length (monsters s)]"
    and "wrapped_one g (rnd i) now delta pp (monsters s ! i) = Some y"
  then show "\<exists>m \<in> set (monsters s). hp y = hp m"
    using wrapped_one_hp nth_mem[of i "monsters s"] by auto
qed

lemma hp_ok_spawn_push:
  "list_all hp_state_ok (monsters s) \<Longrightarrow> hp_state_ok m
   \<Longrightarrow> list_all hp_state_ok (monsters (spawn_push m s))"
  by (simp add: spawn_push_def)

lemma projectile_loop_projectiles:
  "n \<le> length (projectiles s) \<Longrightarrow>
   \<exists>xs. projectiles (projectile_loop now delta n s) = xs @ drop n (projectiles s)
      \<and> (\<forall>x \<in> set xs. \<exists>q \<in> set (take n (projectiles s)).
             x = advance delta q \<and> \<not> p_traveled x > p_range x)"
proof (induction n arbitrary: s)
  case 0
  have "projectiles (projectile_loop now delta 0 s) = [] @ drop 0 (projectiles s)
      \<and> (\<forall>x \<in> set []. \<exists>q \<in> set (take 0 (projectiles s)).
             x = advance delta q \<and> \<not> p_traveled x > p_range x)"
    by simp
  then show ?case by blast
next
  case (Suc n)
  define ps where "ps = projectiles s"
  define p where "p = advance delta (ps ! n)"
  define s1 where "s1 = projectile_at now delta n s"
  define gone where "gone \<longleftrightarrow> snd (hit_detect now p (monsters s)) \<or> p_traveled p > p_range p"
  define ys where "ys = (if gone then [] else [p])"
  have n: "n < length ps" using Suc.prems by (simp add: ps_def)
  have ps1: "projectiles s1 = (if gone then take n ps @ drop (Suc n) ps else ps[n := p])"
    by (simp add: s1_def projectile_at_projectiles ps_def p_def gone_def)
  have n1: "n \<le> length (projectiles s1)" using n by (auto simp: ps1)
  have tk: "take n (projectiles s1) = take n ps" using n by (simp add: ps1)
  have dr: "drop n (projectiles s1) = ys @ drop (Suc n) ps"
    using n by (simp add: ps1 ys_def drop_update_swap Cons_nth_drop_Suc[symmetric]
        upd_conv_take_nth_drop)
  from Suc.IH[OF n1] obtain xs where
    xs: "projectiles (projectile_loop now delta n s1) = xs @ drop n (projectiles s1)"
      "\<forall>x \<in> set xs. \<exists>q \<in> set (take n (projectiles s1)).
             x = advance delta q \<and> \<not> p_traveled x > p_range x"
    by blast
  have sub: "set (take n ps) \<subseteq> set (take (Suc n) ps)"
    by (simp add: set_take_subset_set_take)
  have last: "ps ! n \<in> set (take (Suc n) ps)"
    using n by (simp add: take_Suc_conv_app_nth)
  have a: "projectiles (projectile_loop now delta (Suc n) s) = (xs @ ys) @ drop (Suc n) ps"
    using xs(1) by (simp add: s1_def[symmetric] dr)
  have b: "\<exists>q \<in> set (take (Suc n) ps). x = advance delta q \<and> \<not> p_traveled x > p_range x"
    if "x \<in> set (xs @ ys)" for x
  proof (cases "x \<in> set xs")
    case True
    with xs(2) tk sub show ?thesis by auto
  next
    case False
    with that have "x = p" "\<not> gone" by (auto simp: ys_def split: if_splits)
    then show ?thesis using last by (auto simp: p_def gone_def)
  qed
  from a b show ?case unfolding ps_def by blast
qed

lemma spells_update_projectiles:
  "\<forall>x \<in> set (projectiles (spells_update_body now delta s)).
     \<exists>q \<in> set (projectiles s). x = advance delta q \<and> \<not> p_traveled x > p_range x"
proof -
  define s1 where "s1 = s\<lparr>frostbolt_currentCd := max 0 (frostbolt_currentCd s - delta),
                 frostNova_currentCd := max 0 (frostNova_currentCd s - delta)\<rparr>"
  have a: "projectiles (spells_update_body now delta s)
         = projectiles (projectile_loop now delta (length (projectiles s1)) s1)"
    by (simp add: spells_update_body_def decay_cooldowns_def Let_def s1_def)
  have b: "projectiles s1 = projectiles s" by (simp add: s1_def)
  from projectile_loop_projectiles[of "length (projectiles s1)" s1 now delta]
  show ?thesis unfolding a b by auto
qed

lemma update_one_None_iff: "update_one g r delta pp m = None \<longleftrightarrow> expired delta m"
  by (simp add: update_one_def Let_def expired_def removeTime_def)

lemma expired_freeze_mark [simp]: "expired delta (freeze_mark now m) = expired delta m"
  by (simp add: expired_def removeTime_def)

lemma wrapped_one_None_iff: "wrapped_one g r now delta pp m = None \<longleftrightarrow> expired delta m"
  by (simp add: wrapped_one_def update_one_None_iff)

lemma map_filter_upt_length:
  assumes "\<And>k. k < i \<Longrightarrow> (f k = None \<longleftrightarrow> P (xs ! k))" and "i \<le> length xs"
  shows "length (List.map_filter f [0..<i]) = length (filter (\<lambda>x. \<not> P x) (take i xs))"
  using assms
proof (induction i)
  case 0
  then show ?case by (simp add: List.map_filter_simps)
next
  case (Suc i)
  have i: "i < length xs" using Suc.prems(2) by simp
  have ih: "length (List.map_filter f [0..<i]) = length (filter (\<lambda>x. \<not> P x) (take i xs))"
    using Suc.prems by (intro Suc.IH) auto
  have fi: "f i = None \<longleftrightarrow> P (xs ! i)" using Suc.prems(1)[of i] by simp
  show ?case
    using ih fi i
    by (auto simp: map_filter_append List.map_filter_simps take_Suc_conv_app_nth
          split: option.splits)
qed

lemma map_filter_upt_nth:
  assumes "i < n" and "f i = Some y"
  shows "length (List.map_filter f [0..<i]) < length (List.map_filter f [0..<n])
       \<and> List.map_filter f [0..<n] ! length (List.map_filter f [0..<i]) = y"
proof -
  have "[0..<n] = [0..<i] @ i # [Suc i..<n]"
    using assms(1) by (metis less_imp_le_nat upt_add_eq_append upt_conv_Cons le0 le_add_diff_inverse)
  then have "List.map_filter f [0..<n]
      = List.map_filter f [0..<i] @ y # List.map_filter f [Suc i..<n]"
    using assms(2) by (simp add: map_filter_append List.map_filter_simps)
  then show ?thesis by (simp add: nth_append)
qed

lemma update_length:
  "length (monsters (update g rnd delta pp s))
     = length (filter (\<lambda>m. \<not> expired delta m) (monsters s))"
  using map_filter_upt_length[of "length (monsters s)"
      "\<lambda>i. update_one g (rnd i) delta pp (monsters s ! i)" "expired delta" "monsters s"]
  by (simp add: update_monsters update_one_None_iff)

lemma update_nth:
  assumes "i < length (monsters s)" and "\<not> expired delta (monsters s ! i)"
  shows "new_index delta (monsters s) i < length (monsters (update g rnd delta pp s))
       \<and> update_one g (rnd i) delta pp (monsters s ! i)
           = Some (monsters (update g rnd delta pp s) ! new_index delta (monsters s) i)"
proof -
  define f where "f = (\<lambda>i. update_one g (rnd i) delta pp (monsters s ! i))"
  obtain y where y: "f i = Some y"
    using assms(2) update_one_None_iff[of g "rnd i" delta pp "monsters s ! i"]
    by (cases "f i") (auto simp: f_def)
  have ni: "new_index delta (monsters s) i = length (List.map_filter f [0..<i])"
    unfolding new_index_def
    by (rule map_filter_upt_length[symmetric]) (use assms(1) in \<open>simp_all add: f_def update_one_None_iff\<close>)
  from map_filter_upt_nth[of i "length (monsters s)" f y, OF assms(1) y] show ?thesis
    using y unfolding ni update_monsters f_def[symmetric] by (simp add: f_def)
qed

lemma wrapped_update_length:
  "length (monsters (wrapped_update g rnd now delta pp s))
     = length (filter (\<lambda>m. \<not> expired delta m) (monsters s))"
  using map_filter_upt_length[of "length (monsters s)"
      "\<lambda>i. wrapped_one g (rnd i) now delta pp (monsters s ! i)" "expired delta" "monsters s"]
  by (simp add: wrapped_update_monsters wrapped_one_None_iff)

lemma wrapped_update_nth:
  assumes "i < length (monsters s)" and "\<not> expired delta (monsters s ! i)"
  shows "new_index delta (monsters s) i < length (monsters (wrapped_update g rnd now delta pp s))
       \<and> wrapped_one g (rnd i) now delta pp (monsters s ! i)
           = Some (monsters (wrapped_update g rnd now delta pp s) ! new_index delta (monsters s) i)"
proof -
  define f where "f = (\<lambda>i. wrapped_one g (rnd i) now delta pp (monsters s ! i))"
  obtain y where y: "f i = Some y"
    using assms(2) wrapped_one_None_iff[of g "rnd i" now delta pp "monsters s ! i"]
    by (cases "f i") (auto simp: f_def)
  have ni: "new_index delta (monsters s) i = length (List.map_filter f [0..<i])"
    unfolding new_index_def
    by (rule map_filter_upt_length[symmetric]) (use assms(1) in \<open>simp_all add: f_def wrapped_one_None_iff\<close>)
  from map_filter_upt_nth[of i "length (monsters s)" f y, OF assms(1) y] show ?thesis
    using y unfolding ni wrapped_update_monsters f_def[symmetric] by (simp add: f_def)
qed


lemma map_filter_upt_map:
  assumes "\<And>k. k < i \<Longrightarrow> (f k = None \<longleftrightarrow> P (xs ! k))"
    and "\<And>k y. k < i \<Longrightarrow> f k = Some y \<Longrightarrow> h y = h' (xs ! k)"
    and "i \<le> length xs"
  shows "map h (List.map_filter f [0..<i]) = map h' (filter (\<lambda>x. \<not> P x) (take i xs))"
  using assms
proof (induction i)
  case 0
  then show ?case by (simp add: List.map_filter_simps)
next
  case (Suc i)
  have i: "i < length xs" using Suc.prems(3) by simp
  have ih: "map h (List.map_filter f [0..<i]) = map h' (filter (\<lambda>x. \<not> P x) (take i xs))"
    using Suc.prems by (intro Suc.IH) auto
  have fi: "f i = None \<longleftrightarrow> P (xs ! i)" using Suc.prems(1)[of i] by simp
  have hi: "h y = h' (xs ! i)" if "f i = Some y" for y using Suc.prems(2)[of i y] that by simp
  show ?case
    using ih fi hi i
    by (auto simp: map_filter_append List.map_filter_simps take_Suc_conv_app_nth
          split: option.splits)
qed

lemma alive_step_gid: "gid (alive_step g r delta pp m) = gid m"
  by (simp add: alive_step_def Let_def if_distrib[of gid] split del: if_split cong del: if_weak_cong)

lemma alive_step_mtype: "mtype (alive_step g r delta pp m) = mtype m"
  by (simp add: alive_step_def Let_def if_distrib[of mtype] split del: if_split cong del: if_weak_cong)

lemma update_one_gid: "update_one g r delta pp m = Some m' \<Longrightarrow> gid m' = gid m"
  by (auto simp: update_one_def Let_def alive_step_gid split: if_splits)

lemma update_map_gid:
  "map gid (monsters (update g rnd delta pp s))
     = map gid (filter (\<lambda>m. \<not> expired delta m) (monsters s))"
  using map_filter_upt_map[of "length (monsters s)"
      "\<lambda>i. update_one g (rnd i) delta pp (monsters s ! i)" "expired delta" "monsters s" gid gid]
  by (simp add: update_monsters update_one_None_iff update_one_gid)

lemma update_map_hp:
  "map hp (monsters (update g rnd delta pp s))
     = map hp (filter (\<lambda>m. \<not> expired delta m) (monsters s))"
  using map_filter_upt_map[of "length (monsters s)"
      "\<lambda>i. update_one g (rnd i) delta pp (monsters s ! i)" "expired delta" "monsters s" hp hp]
  by (simp add: update_monsters update_one_None_iff update_one_hp)

lemma wrapped_update_map_hp:
  "map hp (monsters (wrapped_update g rnd now delta pp s))
     = map hp (filter (\<lambda>m. \<not> expired delta m) (monsters s))"
  using map_filter_upt_map[of "length (monsters s)"
      "\<lambda>i. wrapped_one g (rnd i) now delta pp (monsters s ! i)" "expired delta" "monsters s" hp hp]
  by (simp add: wrapped_update_monsters wrapped_one_None_iff wrapped_one_hp)

lemma update_loop_scene_timers:
  "n \<le> length (monsters s) \<Longrightarrow>
   scene (update_loop g rnd delta pp n s)
     = scene s - gid ` {m \<in> set (take n (monsters s)). expired delta m}
   \<and> timers (update_loop g rnd delta pp n s)
     = timers s @ replicate (length (filter (\<lambda>m. expired delta m \<and> \<not> isBoss m)
                                          (take n (monsters s)))) 5000"
proof (induction n arbitrary: s)
  case 0
  then show ?case by simp
next
  case (Suc n)
  define s1 where "s1 = update_at g rnd delta pp n s"
  define mn where "mn = monsters s ! n"
  have n: "n < length (monsters s)" using Suc.prems by simp
  have u: "update_one g (rnd n) delta pp mn = None \<longleftrightarrow> expired delta mn"
    by (rule update_one_None_iff)
  have sc1: "scene s1 = (if expired delta mn then scene s - {gid mn} else scene s)"
    using u by (auto simp: s1_def update_at_eq mn_def split: option.splits)
  have tm1: "timers s1 = (if expired delta mn \<and> \<not> isBoss mn then timers s @ [5000] else timers s)"
    using u by (auto simp: s1_def update_at_eq mn_def split: option.splits)
  have ms1: "monsters s1 =
      (case update_one g (rnd n) delta pp mn of
         None \<Rightarrow> take n (monsters s) @ drop (Suc n) (monsters s)
       | Some m' \<Rightarrow> (monsters s)[n := m'])"
    by (simp add: s1_def update_at_monsters mn_def)
  have len: "n \<le> length (monsters s1)"
    using n by (auto simp: ms1 split: option.splits)
  have tk: "take n (monsters s1) = take n (monsters s)"
    using n by (auto simp: ms1 split: option.splits)
  have tS: "take (Suc n) (monsters s) = take n (monsters s) @ [mn]"
    using n by (simp add: take_Suc_conv_app_nth mn_def)
  have loop: "update_loop g rnd delta pp (Suc n) s = update_loop g rnd delta pp n s1"
    by (simp add: s1_def)
  from Suc.IH[OF len] have
    a: "scene (update_loop g rnd delta pp n s1)
         = scene s1 - gid ` {m \<in> set (take n (monsters s)). expired delta m}" and
    b: "timers (update_loop g rnd delta pp n s1)
         = timers s1 @ replicate (length (filter (\<lambda>m. expired delta m \<and> \<not> isBoss m)
                                          (take n (monsters s)))) 5000"
    unfolding tk by blast+
  have "scene (update_loop g rnd delta pp (Suc n) s)
     = scene s - gid ` {m \<in> set (take (Suc n) (monsters s)). expired delta m}"
    unfolding loop a sc1 tS by auto
  moreover have "timers (update_loop g rnd delta pp (Suc n) s)
     = timers s @ replicate (length (filter (\<lambda>m. expired delta m \<and> \<not> isBoss m)
                                          (take (Suc n) (monsters s)))) 5000"
    unfolding loop b tm1 tS by (simp add: replicate_append_same)
  ultimately show ?case by blast
qed

lemma update_scene:
  "scene (update g rnd delta pp s) = scene s - gid ` {m \<in> set (monsters s). expired delta m}"
  using update_loop_scene_timers[of "length (monsters s)" s g rnd delta pp]
  by (simp add: update_def)

lemma update_timers:
  "timers (update g rnd delta pp s)
     = timers s @ replicate (length (filter (\<lambda>m. expired delta m \<and> \<not> isBoss m) (monsters s))) 5000"
  using update_loop_scene_timers[of "length (monsters s)" s g rnd delta pp]
  by (simp add: update_def)

lemma run_keeps_mark:
  "\<forall>e \<in> set es. \<not> is_frame e \<Longrightarrow> run es m = Some m'
   \<Longrightarrow> frozen m' = frozen m \<and> frozenPos m' = frozenPos m"
proof (induction es arbitrary: m)
  case Nil
  then show ?case by simp
next
  case (Cons e es)
  from Cons.prems(2) obtain m1 where m1: "step e m = Some m1" "run es m1 = Some m'"
    by (auto split: option.splits)
  have "\<not> is_frame e" using Cons.prems(1) by simp
  from step_keeps_mark[OF this m1(1)] Cons.IH[OF _ m1(2)] Cons.prems(1)
  show ?case by simp
qed

lemma gstep_run:
  assumes "\<not> is_gframe e" and "i < length (monsters s)"
  shows "i < length (monsters (gstep e s))
       \<and> (\<exists>es. (\<forall>e' \<in> set es. \<not> is_frame e')
              \<and> run es (monsters s ! i) = Some (monsters (gstep e s) ! i))"
proof (cases e)
  case (GMelee pp pa rng d)
  have "(\<forall>e' \<in> set [Melee pp pa rng d]. \<not> is_frame e')
      \<and> run [Melee pp pa rng d] (monsters s ! i) = Some (monsters (gstep e s) ! i)"
    using assms(2) by (simp add: GMelee attackMonstersInRange_monsters)
  moreover have "i < length (monsters (gstep e s))"
    using assms(2) by (simp add: GMelee attackMonstersInRange_monsters)
  ultimately show ?thesis by blast
next
  case (GCast now name c a pitch)
  from castSpell_monsters[of now name c a pitch s]
  show ?thesis
  proof
    assume same: "monsters (fst (castSpell now name c a pitch s)) = monsters s"
    have "(\<forall>e' \<in> set []. \<not> is_frame e')
        \<and> run [] (monsters s ! i) = Some (monsters (gstep e s) ! i)"
      by (simp add: GCast same)
    moreover have "i < length (monsters (gstep e s))"
      using assms(2) by (simp add: GCast same)
    ultimately show ?thesis by blast
  next
    assume nova: "monsters (fst (castSpell now name c a pitch s)) = monsters (spawnFrostNova now c s)"
    have ms: "monsters (gstep e s) = map (nova_one now c) (monsters s)"
      by (simp add: GCast nova spawnFrostNova_def)
    have "(\<forall>e' \<in> set [Nova now c]. \<not> is_frame e')
        \<and> run [Nova now c] (monsters s ! i) = Some (monsters (gstep e s) ! i)"
      using assms(2) by (simp add: ms)
    moreover have "i < length (monsters (gstep e s))"
      using assms(2) by (simp add: ms)
    ultimately show ?thesis by blast
  qed
next
  case (GSpells now delta)
  show ?thesis
  proof (cases "proto_currentCd s")
    case True
    have ms: "monsters (gstep e s) = monsters s"
      using True by (simp add: GSpells spells_update_def state_after_def decay_cooldowns_def)
    have "(\<forall>e' \<in> set []. \<not> is_frame e')
        \<and> run [] (monsters s ! i) = Some (monsters (gstep e s) ! i)"
      by (simp add: ms)
    moreover have "i < length (monsters (gstep e s))"
      using assms(2) by (simp add: ms)
    ultimately show ?thesis by blast
  next
    case False
    have ms: "monsters (gstep e s) = monsters (spells_update_body now delta s)"
      using False by (simp add: GSpells spells_update_def state_after_def)
    from spells_update_runs[of now delta s] assms(2) obtain es where
      len: "length (monsters (spells_update_body now delta s)) = length (monsters s)" and
      es: "\<forall>e \<in> set es. \<exists>j < length (projectiles s). e = Bolt now (advance delta (projectiles s ! j))"
        "run es (monsters s ! i) = Some (monsters (spells_update_body now delta s) ! i)"
      by blast
    have "\<forall>e' \<in> set es. \<not> is_frame e'" using es(1) by fastforce
    then show ?thesis using es(2) len assms(2) unfolding ms by auto
  qed
next
  case (GCheck pp)
  have ms: "monsters (gstep e s) = map (\<lambda>m. fst (check_one pp m)) (monsters s)"
    by (simp add: GCheck checkPlayerDamage_def check_loop_eq)
  have "(\<forall>e' \<in> set [Check pp]. \<not> is_frame e')
      \<and> run [Check pp] (monsters s ! i) = Some (monsters (gstep e s) ! i)"
    using assms(2) by (simp add: ms)
  moreover have "i < length (monsters (gstep e s))"
    using assms(2) by (simp add: ms)
  ultimately show ?thesis by blast
next
  case (GSpawn m)
  have ms: "monsters (gstep e s) = monsters s @ [m]"
    by (simp add: GSpawn spawn_push_def)
  have "(\<forall>e' \<in> set []. \<not> is_frame e')
      \<and> run [] (monsters s ! i) = Some (monsters (gstep e s) ! i)"
    using assms(2) by (simp add: ms nth_append)
  moreover have "i < length (monsters (gstep e s))"
    using assms(2) by (simp add: ms)
  ultimately show ?thesis by blast
next
  case (GFrame g rnd now delta pp)
  then show ?thesis using assms(1) by simp
qed

lemma gstep_keeps_dead:
  assumes "\<not> is_gframe e" and "i < length (monsters s)" and "state (monsters s ! i) = Dead"
  shows "i < length (monsters (gstep e s)) \<and> state (monsters (gstep e s) ! i) = Dead"
  using gstep_run[OF assms(1,2)] run_dead[OF assms(3)] by blast

lemma gstep_keeps_mark:
  assumes "\<not> is_gframe e" and "i < length (monsters s)"
  shows "i < length (monsters (gstep e s))
       \<and> frozen (monsters (gstep e s) ! i) = frozen (monsters s ! i)
       \<and> frozenPos (monsters (gstep e s) ! i) = frozenPos (monsters s ! i)"
  using gstep_run[OF assms] run_keeps_mark by blast

lemma wrapped_frame_dead:
  assumes "i < length (monsters s)" and "state (monsters s ! i) = Dead"
    and "\<not> expired delta (monsters s ! i)"
  shows "new_index delta (monsters s) i < length (monsters (wrapped_update g rnd now delta pp s))
       \<and> state (monsters (wrapped_update g rnd now delta pp s) ! new_index delta (monsters s) i) = Dead"
proof -
  from wrapped_update_nth[OF assms(1,3), of g rnd now pp]
  have a: "new_index delta (monsters s) i < length (monsters (wrapped_update g rnd now delta pp s))"
    and b: "step (Frame g (rnd i) now delta pp) (monsters s ! i)
          = Some (monsters (wrapped_update g rnd now delta pp s) ! new_index delta (monsters s) i)"
    by simp_all
  from step_dead[OF assms(2) b] a show ?thesis by simp
qed

lemma stays_dead_ok:
  "i < length (monsters s) \<Longrightarrow> state (monsters s ! i) = Dead \<Longrightarrow> stays_dead es s i"
proof (induction es arbitrary: s i)
  case Nil
  then show ?case by simp
next
  case (Cons e es)
  show ?case
  proof (cases "is_gframe e")
    case True
    then obtain g rnd now delta pp where e: "e = GFrame g rnd now delta pp" by (cases e) auto
    show ?thesis
    proof (cases "expired delta (monsters s ! i)")
      case True
      then show ?thesis using Cons.prems by (simp add: e)
    next
      case False
      from wrapped_frame_dead[OF Cons.prems False, of g rnd now pp]
      have "stays_dead es (wrapped_update g rnd now delta pp s) (new_index delta (monsters s) i)"
        by (intro Cons.IH) simp_all
      then show ?thesis using Cons.prems by (simp add: e)
    qed
  next
    case False
    from gstep_keeps_dead[OF False Cons.prems]
    have "stays_dead es (gstep e s) i" by (intro Cons.IH) simp_all
    then show ?thesis using Cons.prems False by (cases e) simp_all
  qed
qed

lemma freeze_mark_gid: "gid (freeze_mark now m) = gid m"
  by (simp add: freeze_mark_def Let_def)

lemma snap_back_gid: "gid (snap_back m) = gid m"
  by (simp add: snap_back_def split: option.splits)

lemma wrapped_one_gid:
  assumes "wrapped_one g r now delta pp m = Some m'"
  shows "gid m' = gid m"
proof -
  from assms obtain a where a: "update_one g r delta pp (freeze_mark now m) = Some a"
    and m': "m' = snap_back a"
    by (auto simp: wrapped_one_def)
  from update_one_gid[OF a] show ?thesis by (simp add: m' snap_back_gid freeze_mark_gid)
qed

lemma frozen_frame:
  assumes "i < length (monsters s)" and "isFrozen now (monsters s ! i)"
    and "frozen (monsters s ! i)" and "frozenPos (monsters s ! i) = Some fp"
  shows "let s' = wrapped_update g rnd now delta pp s; j = new_index delta (monsters s) i
         in j < length (monsters s')
          \<and> gid (monsters s' ! j) = gid (monsters s ! i)
          \<and> pos_x (monsters s' ! j) = fst fp \<and> pos_z (monsters s' ! j) = snd fp
          \<and> frozen (monsters s' ! j) \<and> frozenPos (monsters s' ! j) = Some fp"
proof -
  have alive: "state (monsters s ! i) \<noteq> Dead"
    using assms(2) by (auto simp: isFrozen_def split: option.splits)
  then have ne: "\<not> expired delta (monsters s ! i)" by (simp add: expired_def)
  from frame_frozen[OF assms(2,3,4), of g "rnd i" delta pp] obtain m' where
    m': "wrapped_one g (rnd i) now delta pp (monsters s ! i) = Some m'"
      "pos_x m' = fst fp" "pos_z m' = snd fp" "frozen m'" "frozenPos m' = Some fp" by blast
  from wrapped_update_nth[OF assms(1) ne, of g rnd now pp]
  have j: "new_index delta (monsters s) i < length (monsters (wrapped_update g rnd now delta pp s))"
    and n: "monsters (wrapped_update g rnd now delta pp s) ! new_index delta (monsters s) i = m'"
    unfolding m'(1) by simp_all
  show ?thesis
    unfolding Let_def n using j m'(2-5) wrapped_one_gid[OF m'(1)] by simp
qed

lemma stays_put_marked:
  "i < length (monsters s) \<Longrightarrow> frozen (monsters s ! i) \<Longrightarrow> frozenPos (monsters s ! i) = Some fp
   \<Longrightarrow> stays_put fp es s i"
proof (induction es arbitrary: s i)
  case Nil
  then show ?case by simp
next
  case (Cons e es)
  show ?case
  proof (cases "is_gframe e")
    case True
    then obtain g rnd now delta pp where e: "e = GFrame g rnd now delta pp" by (cases e) auto
    show ?thesis
    proof (cases "isFrozen now (monsters s ! i)")
      case True
      define s' where "s' = wrapped_update g rnd now delta pp s"
      define j where "j = new_index delta (monsters s) i"
      from frozen_frame[OF Cons.prems(1) True Cons.prems(2,3), of g rnd delta pp]
      have f: "j < length (monsters s')" "gid (monsters s' ! j) = gid (monsters s ! i)"
        "pos_x (monsters s' ! j) = fst fp" "pos_z (monsters s' ! j) = snd fp"
        "frozen (monsters s' ! j)" "frozenPos (monsters s' ! j) = Some fp"
        unfolding Let_def s'_def[symmetric] j_def[symmetric] by simp_all
      from Cons.IH[OF f(1,5,6)] f(1-4) True show ?thesis
        by (simp add: e Let_def s'_def[symmetric] j_def[symmetric])
    next
      case False
      then show ?thesis by (simp add: e)
    qed
  next
    case False
    from gstep_keeps_mark[OF False Cons.prems(1)] Cons.prems(2,3)
    have "stays_put fp es (gstep e s) i" by (intro Cons.IH) simp_all
    then show ?thesis using False by (cases e) simp_all
  qed
qed

lemma wrapped_one_alive:
  assumes "wrapped_one g r now delta pp m = Some m'" and "state m \<noteq> Dead"
  shows "state m' \<noteq> Dead \<and> slowUntil m' = slowUntil m \<and> hp m' = hp m"
proof -
  define a where "a = alive_step g r delta pp ((freeze_mark now m)\<lparr>mtime := mtime (freeze_mark now m) + delta\<rparr>)"
  have "update_one g r delta pp (freeze_mark now m) = Some a"
    using assms(2) by (simp add: update_one_alive a_def)
  then have m': "m' = snap_back a" using assms(1) by (simp add: wrapped_one_def)
  have "state a \<noteq> Dead" "slowUntil a = slowUntil m" "hp a = hp m"
    by (simp_all add: a_def alive_step_not_dead alive_step_slowUntil alive_step_hp)
  then show ?thesis by (simp add: m')
qed

lemma after_bolts_append:
  "after_bolts now delta (xs @ ys) ms = after_bolts now delta xs (after_bolts now delta ys ms)"
  by (induction xs) simp_all

lemma after_bolts_length [simp]: "length (after_bolts now delta ps ms) = length ms"
  by (induction ps) simp_all

lemma projectile_loop_sweep:
  "n \<le> length (projectiles s) \<Longrightarrow>
   monsters (projectile_loop now delta n s)
     = after_bolts now delta (take n (projectiles s)) (monsters s)
   \<and> projectiles (projectile_loop now delta n s)
     = map (\<lambda>k. advance delta (projectiles s ! k))
         (filter (\<lambda>k. \<not> snd (hit_detect now (advance delta (projectiles s ! k))
                               (after_bolts now delta (drop (Suc k) (take n (projectiles s)))
                                  (monsters s)))
                     \<and> \<not> p_traveled (advance delta (projectiles s ! k))
                           > p_range (advance delta (projectiles s ! k)))
            [0..<n])
       @ drop n (projectiles s)"
proof (induction n arbitrary: s)
  case 0
  then show ?case by simp
next
  case (Suc n)
  define ps where "ps = projectiles s"
  define ms where "ms = monsters s"
  define p where "p = advance delta (ps ! n)"
  define s1 where "s1 = projectile_at now delta n s"
  define gone where "gone \<longleftrightarrow> snd (hit_detect now p ms) \<or> p_traveled p > p_range p"
  define ys where "ys = (if gone then [] else [p])"
  define surv where "surv = (\<lambda>N M k. \<not> snd (hit_detect now (advance delta (ps ! k))
                               (after_bolts now delta (drop (Suc k) (take N ps)) M))
                     \<and> \<not> p_traveled (advance delta (ps ! k)) > p_range (advance delta (ps ! k)))"
  have n: "n < length ps" using Suc.prems by (simp add: ps_def)
  have ms1: "monsters s1 = fst (hit_detect now p ms)"
    by (simp add: s1_def p_def projectile_at_monsters ps_def ms_def)
  have ps1: "projectiles s1 = (if gone then take n ps @ drop (Suc n) ps else ps[n := p])"
    by (simp add: s1_def projectile_at_projectiles ps_def p_def gone_def ms_def)
  have n1: "n \<le> length (projectiles s1)" using n by (auto simp: ps1)
  have tk: "take n (projectiles s1) = take n ps" using n by (simp add: ps1)
  have same: "projectiles s1 ! k = ps ! k" if "k < n" for k
    using that n by (simp add: ps1 nth_append)
  have dr: "drop n (projectiles s1) = ys @ drop (Suc n) ps"
    using n by (simp add: ps1 ys_def drop_update_swap Cons_nth_drop_Suc[symmetric]
        upd_conv_take_nth_drop)
  have tS: "take (Suc n) ps = take n ps @ [ps ! n]"
    using n by (simp add: take_Suc_conv_app_nth)
  have loop: "projectile_loop now delta (Suc n) s = projectile_loop now delta n s1"
    by (simp add: s1_def)
  from Suc.IH[OF n1] have
    ihm: "monsters (projectile_loop now delta n s1)
            = after_bolts now delta (take n ps) (fst (hit_detect now p ms))" and
    ihp: "projectiles (projectile_loop now delta n s1)
            = map (\<lambda>k. advance delta (projectiles s1 ! k))
                (filter (\<lambda>k. \<not> snd (hit_detect now (advance delta (projectiles s1 ! k))
                               (after_bolts now delta (drop (Suc k) (take n ps))
                                  (fst (hit_detect now p ms))))
                     \<and> \<not> p_traveled (advance delta (projectiles s1 ! k))
                           > p_range (advance delta (projectiles s1 ! k)))
                   [0..<n])
              @ drop n (projectiles s1)"
    unfolding tk ms1 by blast+
  have m: "monsters (projectile_loop now delta (Suc n) s)
         = after_bolts now delta (take (Suc n) ps) ms"
    unfolding loop ihm tS after_bolts_append by (simp add: p_def)
  have ab: "after_bolts now delta (drop (Suc k) (take (Suc n) ps)) ms
          = after_bolts now delta (drop (Suc k) (take n ps)) (fst (hit_detect now p ms))"
    if "k < n" for k
  proof -
    have "drop (Suc k) (take (Suc n) ps) = drop (Suc k) (take n ps) @ [ps ! n]"
      using that n by (simp add: tS)
    then show ?thesis by (simp add: after_bolts_append p_def)
  qed
  have f1: "filter (\<lambda>k. \<not> snd (hit_detect now (advance delta (projectiles s1 ! k))
                               (after_bolts now delta (drop (Suc k) (take n ps))
                                  (fst (hit_detect now p ms))))
                     \<and> \<not> p_traveled (advance delta (projectiles s1 ! k))
                           > p_range (advance delta (projectiles s1 ! k)))
                   [0..<n]
          = filter (surv (Suc n) ms) [0..<n]"
    by (rule filter_cong[OF refl]) (simp add: surv_def same ab)
  have f2: "map (\<lambda>k. advance delta (projectiles s1 ! k)) (filter (surv (Suc n) ms) [0..<n])
          = map (\<lambda>k. advance delta (ps ! k)) (filter (surv (Suc n) ms) [0..<n])"
    by (rule map_cong[OF refl]) (simp add: same)
  have last: "surv (Suc n) ms n \<longleftrightarrow> \<not> gone"
    using n by (simp add: surv_def gone_def p_def)
  have f3: "map (\<lambda>k. advance delta (ps ! k)) (filter (surv (Suc n) ms) [0..<Suc n])
          = map (\<lambda>k. advance delta (ps ! k)) (filter (surv (Suc n) ms) [0..<n]) @ ys"
    by (simp add: last ys_def p_def)
  have "projectiles (projectile_loop now delta (Suc n) s)
      = map (\<lambda>k. advance delta (ps ! k)) (filter (surv (Suc n) ms) [0..<Suc n])
          @ drop (Suc n) ps"
    unfolding loop ihp f1 f2 f3 dr by simp
  with m show ?case unfolding surv_def ps_def ms_def by blast
qed

lemma spells_update_body_sweep:
  "monsters (spells_update_body now delta s) = after_bolts now delta (projectiles s) (monsters s)
   \<and> projectiles (spells_update_body now delta s)
     = map (\<lambda>k. advance delta (projectiles s ! k))
         (filter (\<lambda>k. \<not> snd (hit_detect now (advance delta (projectiles s ! k))
                               (after_bolts now delta (drop (Suc k) (projectiles s)) (monsters s)))
                     \<and> \<not> p_traveled (advance delta (projectiles s ! k))
                           > p_range (advance delta (projectiles s ! k)))
            [0..<length (projectiles s)])"
proof -
  define s1 where "s1 = decay_cooldowns delta s"
  have a: "monsters (spells_update_body now delta s)
             = monsters (projectile_loop now delta (length (projectiles s1)) s1)"
     "projectiles (spells_update_body now delta s)
             = projectiles (projectile_loop now delta (length (projectiles s1)) s1)"
    by (simp_all add: spells_update_body_def Let_def s1_def)
  have b: "monsters s1 = monsters s" "projectiles s1 = projectiles s"
    by (simp_all add: s1_def decay_cooldowns_def)
  from projectile_loop_sweep[of "length (projectiles s1)" s1 now delta]
  show ?thesis unfolding a b by simp
qed

lemma after_bolts_step:
  assumes "k < length ps"
  shows "after_bolts now delta (drop k ps) ms
       = fst (hit_detect now (advance delta (ps ! k)) (after_bolts now delta (drop (Suc k) ps) ms))"
proof -
  have "drop k ps = ps ! k # drop (Suc k) ps" using assms by (simp add: Cons_nth_drop_Suc)
  then show ?thesis by simp
qed

lemma sqrt_less_pos: "0 < r \<Longrightarrow> sqrt x < r \<longleftrightarrow> x < r * r"
proof -
  assume r: "0 < r"
  then have "sqrt (r * r) = r" by simp
  then have "sqrt x < r \<longleftrightarrow> sqrt x < sqrt (r * r)" by simp
  then show ?thesis by (simp only: real_sqrt_less_iff)
qed

section \<open>Properties of the combat core\<close>

text \<open>
  C3, at the name \<open>toString\<close>. A cast is to be rejected when the name is not a known
  spell. \<open>toString\<close> is no spell, but \<open>spells['toString']\<close> is the function that
  the object literal inherits, which is truthy and has no \<open>currentCd\<close>: the guard
  \<open>!spell || spell.currentCd > 0\<close> lets it pass and \<open>castSpell\<close> returns \<open>true\<close>,
  with the game state as it was.
\<close>

theorem castSpell_inherited_name_accepted:
  "castSpell now ''toString'' casterPos casterAngle casterPitch s = (s, True)"
  by (simp add: castSpell_def spells_lookup_def object_prototype_keys_def)

text \<open>
  C8, as stated, fails: frostbolt's \<open>cooldown\<close> is 0, so the first cast resets
  \<open>currentCd\<close> to 0 and a second cast right after it is accepted too.
\<close>

theorem frostbolt_twice_counterexample:
  "snd (castSpell 0 ''frostbolt'' origin 0 None (ex_game []))
   \<and> snd (castSpell 0 ''frostbolt'' origin 0 None
            (fst (castSpell 0 ''frostbolt'' origin 0 None (ex_game []))))"
  by (simp add: castSpell_def spells_lookup_def ex_game_def spawnFrostbolt_def
        frostbolt_cooldown_def)

text \<open>
  C8, amended: an accepted cast resets the spell's \<open>currentCd\<close> to its \<open>cooldown\<close>.
  For frost nova that is 8, and a second cast with no cooldown decay in between returns
  false; for frostbolt it is 0, and the second cast returns true.
\<close>

theorem cast_twice_in_succession:
  "(snd (castSpell now ''frostNova'' pos a p s) \<longrightarrow>
      frostNova_currentCd (fst (castSpell now ''frostNova'' pos a p s)) = 8
    \<and> \<not> snd (castSpell now' ''frostNova'' pos' a' p' (fst (castSpell now ''frostNova'' pos a p s))))
   \<and> (snd (castSpell now ''frostbolt'' pos a p s) \<longrightarrow>
      frostbolt_currentCd (fst (castSpell now ''frostbolt'' pos a p s)) = 0
    \<and> snd (castSpell now' ''frostbolt'' pos' a' p' (fst (castSpell now ''frostbolt'' pos a p s))))"
  by (simp add: castSpell_def spells_lookup_def spawnFrostbolt_def spawnFrostNova_def
        frostbolt_cooldown_def frostNova_cooldown_def)

theorem cast_twice_in_succession_witness:
  "snd (castSpell 0 ''frostNova'' origin 0 None (ex_game []))
   \<and> \<not> snd (castSpell 0 ''frostNova'' origin 0 None
              (fst (castSpell 0 ''frostNova'' origin 0 None (ex_game []))))
   \<and> snd (castSpell 0 ''frostbolt'' origin 0 None (ex_game []))
   \<and> snd (castSpell 0 ''frostbolt'' origin 0 None
              (fst (castSpell 0 ''frostbolt'' origin 0 None (ex_game []))))"
proof -
  have n: "snd (castSpell 0 ''frostNova'' origin 0 None (ex_game []))"
    by (simp add: castSpell_def spells_lookup_def ex_game_def)
  have b: "snd (castSpell 0 ''frostbolt'' origin 0 None (ex_game []))"
    by (simp add: castSpell_def spells_lookup_def ex_game_def)
  from cast_twice_in_succession[of 0 origin 0 None "ex_game []" 0 origin 0 None] n b
  show ?thesis by simp
qed

text \<open>
  C9: with no attack cooldown below 0 in the list, \<open>checkPlayerDamage\<close> returns the sum
  of \<open>type.damage\<close> over the monsters in state attack, with attack cooldown 0 and
  closer to the player than their attack range (8 for the boss, 2 otherwise); it sets the
  attack cooldown of exactly those monsters to 1.5 and changes nothing else.
\<close>

theorem checkPlayerDamage_sum:
  assumes "\<forall>m \<in> set (monsters s). 0 \<le> attackCooldown m"
  shows "snd (checkPlayerDamage pp s) =
           sum_list (map (\<lambda>m. tdamage (mtype m)) (filter (contributes pp) (monsters s)))
       \<and> fst (checkPlayerDamage pp s) =
           s\<lparr>monsters := map (\<lambda>m. if contributes pp m then m\<lparr>attackCooldown := 3 / 2\<rparr> else m)
                             (monsters s)\<rparr>"
proof -
  have a: "filter (\<lambda>m. snd (check_one pp m)) (monsters s) = filter (contributes pp) (monsters s)"
    using assms by (intro filter_cong) (auto simp: check_one_eq)
  have b: "map (\<lambda>m. fst (check_one pp m)) (monsters s) =
        map (\<lambda>m. if contributes pp m then m\<lparr>attackCooldown := 3 / 2\<rparr> else m) (monsters s)"
    using assms by (intro map_cong) (auto simp: check_one_eq)
  show ?thesis
    by (simp add: checkPlayerDamage_def check_loop_eq a b)
qed

theorem checkPlayerDamage_sum_witness:
  "0 \<le> attackCooldown ((ex_monster 1 0)\<lparr>state := Attack\<rparr>)
   \<and> 0 \<le> attackCooldown (ex_monster 9 0)
   \<and> contributes origin ((ex_monster 1 0)\<lparr>state := Attack\<rparr>)
   \<and> \<not> contributes origin (ex_monster 9 0)
   \<and> snd (checkPlayerDamage origin (ex_game [(ex_monster 1 0)\<lparr>state := Attack\<rparr>, ex_monster 9 0])) = 5"
proof -
  have h: "\<forall>m \<in> set (monsters (ex_game [(ex_monster 1 0)\<lparr>state := Attack\<rparr>, ex_monster 9 0])).
       0 \<le> attackCooldown m"
    by (simp add: ex_game_def ex_monster_def new_monster_def)
  from checkPlayerDamage_sum[OF h, of origin] h show ?thesis
    by (simp add: ex_game_def ex_monster_def new_monster_def contributes_def planar_dist_def
          origin_def)
qed

text \<open>
  C10: in \<open>attackMonstersInRange\<close>, a monster that is hit while its planar distance to
  the player is at most 0.1 keeps its (x, z) position, and its hp goes down by the damage
  (to 0 when that is not positive): the knockback, the only division by the distance, is
  not computed.
\<close>

theorem melee_close_hit_no_knockback:
  assumes "i < length (monsters s)"
    and "snd (attack_one pp pa rng d (monsters s ! i))"
    and "planar_dist pp (monsters s ! i) \<le> 1 / 10"
  shows "pos_x (monsters (fst (attackMonstersInRange pp pa rng d s)) ! i) = pos_x (monsters s ! i)
       \<and> pos_z (monsters (fst (attackMonstersInRange pp pa rng d s)) ! i) = pos_z (monsters s ! i)
       \<and> hp (monsters (fst (attackMonstersInRange pp pa rng d s)) ! i) =
           (if hp (monsters s ! i) - d \<le> 0 then 0 else hp (monsters s ! i) - d)"
  using assms
  by (auto simp: attackMonstersInRange_monsters attack_one_def Let_def planar_dist_def
        split: if_splits)

theorem melee_close_hit_no_knockback_witness:
  "0 < length (monsters (ex_game [ex_monster 0 0]))
   \<and> snd (attack_one origin 0 3 10 (monsters (ex_game [ex_monster 0 0]) ! 0))
   \<and> planar_dist origin (monsters (ex_game [ex_monster 0 0]) ! 0) \<le> 1 / 10
   \<and> pos_x (monsters (fst (attackMonstersInRange origin 0 3 10 (ex_game [ex_monster 0 0]))) ! 0) = 0
   \<and> pos_z (monsters (fst (attackMonstersInRange origin 0 3 10 (ex_game [ex_monster 0 0]))) ! 0) = 0
   \<and> hp (monsters (fst (attackMonstersInRange origin 0 3 10 (ex_game [ex_monster 0 0]))) ! 0) = 50"
proof -
  have h1: "0 < length (monsters (ex_game [ex_monster 0 0]))"
    by (simp add: ex_game_def)
  have h2: "snd (attack_one origin 0 3 10 (monsters (ex_game [ex_monster 0 0]) ! 0))"
    by (simp add: ex_game_def ex_monster_def new_monster_def attack_one_def origin_def atan2_def
          wrap_down_id wrap_up_id)
  have h3: "planar_dist origin (monsters (ex_game [ex_monster 0 0]) ! 0) \<le> 1 / 10"
    by (simp add: ex_game_def ex_monster_def new_monster_def planar_dist_def origin_def)
  from melee_close_hit_no_knockback[OF h1 h2 h3] h1 h2 h3 show ?thesis
    by (simp add: ex_game_def ex_monster_def new_monster_def)
qed

text \<open>
  C2, as stated, fails on the distance bound: the loop skips a monster only when
  \<open>dist > range\<close>, so a monster in front of the player at exactly the range, here 3,
  is hit.
\<close>

theorem melee_at_range_counterexample:
  "planar_dist origin (ex_monster 0 3) = 3
   \<and> \<not> planar_dist origin (ex_monster 0 3) < 3
   \<and> state (ex_monster 0 3) \<noteq> Dead
   \<and> hp (ex_monster 0 3) = 60
   \<and> hp (monsters (fst (attackMonstersInRange origin 0 3 10 (ex_game [ex_monster 0 3]))) ! 0) = 50
   \<and> snd (attackMonstersInRange origin 0 3 10 (ex_game [ex_monster 0 3]))"
  by (simp add: attackMonstersInRange_def attack_loop_eq attack_one_def planar_dist_def
        origin_def ex_game_def ex_monster_def new_monster_def atan2_def wrap_down_id wrap_up_id)

text \<open>
  C2, amended. \<open>attackMonstersInRange\<close> damages a monster if and only if it is not
  dead, its planar distance to the player is at most \<open>range\<close>, and the difference
  between the direction to the monster and \<open>playerAngle\<close>, normalised into
  \<open>(-\<pi>, \<pi>]\<close>, is below \<open>\<pi>/2\<close> in absolute value. Every other monster is left as
  it was, and the call returns true iff at least one monster was hit.
\<close>

theorem attackMonstersInRange_hits:
  "length (monsters (fst (attackMonstersInRange pp pa rng d s))) = length (monsters s)
   \<and> (\<forall>i < length (monsters s).
        (melee_hits pp pa rng (monsters s ! i) \<longrightarrow>
           hp (monsters (fst (attackMonstersInRange pp pa rng d s)) ! i) =
             (if hp (monsters s ! i) - d \<le> 0 then 0 else hp (monsters s ! i) - d))
      \<and> (\<not> melee_hits pp pa rng (monsters s ! i) \<longrightarrow>
           monsters (fst (attackMonstersInRange pp pa rng d s)) ! i = monsters s ! i))
   \<and> (snd (attackMonstersInRange pp pa rng d s) \<longleftrightarrow>
        (\<exists>i < length (monsters s). melee_hits pp pa rng (monsters s ! i)))"
proof -
  have "snd (attackMonstersInRange pp pa rng d s) \<longleftrightarrow> (\<exists>m \<in> set (monsters s). melee_hits pp pa rng m)"
    by (simp add: attackMonstersInRange_def attack_loop_eq attack_one_hit_iff)
  then have "snd (attackMonstersInRange pp pa rng d s) \<longleftrightarrow>
        (\<exists>i < length (monsters s). melee_hits pp pa rng (monsters s ! i))"
    by (metis in_set_conv_nth)
  then show ?thesis
    by (simp add: attackMonstersInRange_monsters attack_one_hp attack_one_miss)
qed

theorem attackMonstersInRange_hits_witness:
  "melee_hits origin 0 3 (ex_monster 0 3)
   \<and> \<not> melee_hits origin 0 3 (ex_monster 0 (-2))
   \<and> hp (monsters (fst (attackMonstersInRange origin 0 3 10 (ex_game [ex_monster 0 3, ex_monster 0 (-2)]))) ! 0) = 50
   \<and> monsters (fst (attackMonstersInRange origin 0 3 10 (ex_game [ex_monster 0 3, ex_monster 0 (-2)]))) ! 1 = ex_monster 0 (-2)
   \<and> snd (attackMonstersInRange origin 0 3 10 (ex_game [ex_monster 0 3, ex_monster 0 (-2)]))"
proof -
  have a: "melee_hits origin 0 3 (ex_monster 0 3)"
    by (simp add: melee_hits_def planar_dist_def origin_def ex_monster_def new_monster_def
          atan2_def angle_norm_id)
  have b: "\<not> melee_hits origin 0 3 (ex_monster 0 (-2))"
    by (simp add: melee_hits_def planar_dist_def origin_def ex_monster_def new_monster_def
          atan2_def angle_norm_id)
  have m: "monsters (ex_game [ex_monster 0 3, ex_monster 0 (-2)]) = [ex_monster 0 3, ex_monster 0 (-2)]"
    by (simp add: ex_game_def)
  have h: "hp (ex_monster 0 3) = 60" by (simp add: ex_monster_def new_monster_def)
  from attackMonstersInRange_hits[of origin 0 3 10 "ex_game [ex_monster 0 3, ex_monster 0 (-2)]"]
  show ?thesis
    unfolding m using a b h by (simp add: All_less_Suc Ex_less_Suc)
qed

text \<open>
  C7: a call of \<open>update\<close> in a state whose monster at index \<open>i\<close> is not dead, at planar
  distance \<open>d\<close> from the player. The call keeps the monster, at the index
  \<open>new_index delta (monsters s) i\<close> (the dead monsters that the call removes before it
  shift it down). Inside the aggro range (40 for the boss, 12 otherwise) and inside the
  attack range (8 for the boss, 2 otherwise) its state becomes attack; inside the aggro
  range and not inside the attack range it becomes chase, and the monster is displaced
  along the unit vector toward the player, by \<open>type.speed * delta\<close>; at or beyond the
  aggro range it becomes idle.
\<close>

theorem update_live_monster_state:
  assumes "i < length (monsters s)" and "state (monsters s ! i) \<noteq> Dead"
  shows "let m = monsters s ! i;
             d = planar_dist playerPos m;
             aggroRange = (if isBoss m then 40 else 12);
             attackRange = (if isBoss m then 8 else 2);
             s' = update getTerrainHeight rnd delta playerPos s;
             j = new_index delta (monsters s) i;
             m' = monsters s' ! j
         in j < length (monsters s')
          \<and> gid m' = gid m
          \<and> (d < aggroRange \<and> d < attackRange \<longrightarrow> state m' = Attack)
          \<and> (d < aggroRange \<and> attackRange \<le> d \<longrightarrow>
                 state m' = Chase
               \<and> pos_x m' = pos_x m + (vx playerPos - pos_x m) / d * tspeed (mtype m) * delta
               \<and> pos_z m' = pos_z m + (vz playerPos - pos_z m) / d * tspeed (mtype m) * delta
               \<and> sqrt ((pos_x m' - pos_x m) * (pos_x m' - pos_x m)
                       + (pos_z m' - pos_z m) * (pos_z m' - pos_z m))
                   = \<bar>tspeed (mtype m) * delta\<bar>)
          \<and> (aggroRange \<le> d \<longrightarrow> state m' = Idle)"
proof -
  define m where "m = monsters s ! i"
  define d where "d = planar_dist playerPos m"
  define m1 where "m1 = m\<lparr>mtime := mtime m + delta\<rparr>"
  define m' where "m' = alive_step getTerrainHeight (rnd i) delta playerPos m1"
  define v where "v = tspeed (mtype m) * delta"
  define j where "j = new_index delta (monsters s) i"
  have ne: "\<not> expired delta (monsters s ! i)" using assms(2) by (simp add: expired_def)
  have u1: "update_one getTerrainHeight (rnd i) delta playerPos (monsters s ! i) = Some m'"
    using assms(2) by (simp add: update_one_alive m'_def m1_def m_def)
  from update_nth[OF assms(1) ne, of getTerrainHeight rnd playerPos]
  have len: "j < length (monsters (update getTerrainHeight rnd delta playerPos s))"
    and nth: "monsters (update getTerrainHeight rnd delta playerPos s) ! j = m'"
    unfolding j_def[symmetric] u1 by simp_all
  have m1: "planar_dist playerPos m1 = d" "isBoss m1 = isBoss m" "pos_x m1 = pos_x m"
    "pos_z m1 = pos_z m" "mtype m1 = mtype m" "gid m1 = gid m"
    by (simp_all add: m1_def d_def)
  have gd: "gid m' = gid m"
    unfolding m'_def alive_step_gid m1 ..
  have st: "state m' =
     (if d < (if isBoss m then 40 else 12)
      then (if d < (if isBoss m then 8 else 2) then Attack else Chase)
      else Idle)"
    unfolding m'_def alive_step_state m1 ..
  have dd: "d = sqrt ((vx playerPos - pos_x m) * (vx playerPos - pos_x m)
                    + (vz playerPos - pos_z m) * (vz playerPos - pos_z m))"
    by (simp add: d_def planar_dist_swap)
  have chase: "state m' = Chase
       \<and> pos_x m' = pos_x m + (vx playerPos - pos_x m) / d * tspeed (mtype m) * delta
       \<and> pos_z m' = pos_z m + (vz playerPos - pos_z m) / d * tspeed (mtype m) * delta
       \<and> sqrt ((pos_x m' - pos_x m) * (pos_x m' - pos_x m)
               + (pos_z m' - pos_z m) * (pos_z m' - pos_z m)) = \<bar>tspeed (mtype m) * delta\<bar>"
    if a: "d < (if isBoss m then 40 else 12)" and b: "(if isBoss m then 8 else 2) \<le> d"
  proof -
    have nb: "\<not> d < (if isBoss m then 8 else 2)" using b by simp
    have pos: "0 < d" using b by (cases "isBoss m") simp_all
    have x: "pos_x m' = pos_x m + (vx playerPos - pos_x m) / d * tspeed (mtype m) * delta"
      using alive_step_chase_x[of playerPos m1 getTerrainHeight "rnd i" delta] a nb
      unfolding m1 m'_def[symmetric] by simp
    have z: "pos_z m' = pos_z m + (vz playerPos - pos_z m) / d * tspeed (mtype m) * delta"
      using alive_step_chase_z[of playerPos m1 getTerrainHeight "rnd i" delta] a nb
      unfolding m1 m'_def[symmetric] by simp
    have xd: "pos_x m' - pos_x m = (vx playerPos - pos_x m) / d * v"
      unfolding x v_def by (simp add: mult.assoc)
    have zd: "pos_z m' - pos_z m = (vz playerPos - pos_z m) / d * v"
      unfolding z v_def by (simp add: mult.assoc)
    have n: "sqrt ((pos_x m' - pos_x m) * (pos_x m' - pos_x m)
               + (pos_z m' - pos_z m) * (pos_z m' - pos_z m)) = \<bar>v\<bar>"
      unfolding xd zd by (rule unit_dir[OF dd pos])
    have "state m' = Chase" unfolding st using a nb by simp
    with x z n show ?thesis unfolding v_def by blast
  qed
  have att: "state m' = Attack"
    if "d < (if isBoss m then 40 else 12)" "d < (if isBoss m then 8 else 2)"
    unfolding st using that by simp
  have idle: "state m' = Idle" if "(if isBoss m then 40 else 12) \<le> d"
    unfolding st using that by simp
  show ?thesis
    unfolding Let_def m_def[symmetric] d_def[symmetric] j_def[symmetric] nth
    using att chase idle len gd by blast
qed

text \<open>
  The example of the specification: a monster at distance 3 from the player, with attack
  range 2 and aggro range 12, ends the update in state chase, 0.2 closer to the player;
  the dead monster before it in the list is removed by the same call.
\<close>

theorem update_live_monster_state_witness:
  "1 < length (monsters c7_game)
   \<and> state (monsters c7_game ! 1) \<noteq> Dead
   \<and> planar_dist \<lparr>vx = 3, vy = 0, vz = 0\<rparr> (monsters c7_game ! 1) = 3
   \<and> new_index (1 / 10) (monsters c7_game) 1 = 0
   \<and> state (monsters (update (\<lambda>x z. 0) (\<lambda>i. (0, 0)) (1 / 10) \<lparr>vx = 3, vy = 0, vz = 0\<rparr> c7_game) ! 0)
       = Chase
   \<and> pos_x (monsters (update (\<lambda>x z. 0) (\<lambda>i. (0, 0)) (1 / 10) \<lparr>vx = 3, vy = 0, vz = 0\<rparr> c7_game) ! 0)
       = 1 / 5"
proof -
  have h1: "1 < length (monsters c7_game)"
    by (simp add: c7_game_def ex_game_def)
  have m: "monsters c7_game ! 1 = ex_monster 0 0"
    by (simp add: c7_game_def ex_game_def)
  have h2: "state (monsters c7_game ! 1) \<noteq> Dead"
    by (simp add: c7_game_def ex_game_def ex_monster_def new_monster_def)
  have d: "planar_dist \<lparr>vx = 3, vy = 0, vz = 0\<rparr> (ex_monster 0 0) = 3"
    by (simp add: planar_dist_def ex_monster_def new_monster_def)
  have b: "\<not> isBoss (ex_monster 0 0)" "pos_x (ex_monster 0 0) = 0"
    "tspeed (mtype (ex_monster 0 0)) = 2"
    by (simp_all add: ex_monster_def new_monster_def)
  have j: "new_index (1 / 10) (monsters c7_game) 1 = 0"
    by (simp add: new_index_def c7_game_def ex_game_def c7_dead_def expired_def removeTime_def
        ex_monster_def new_monster_def)
  from update_live_monster_state[OF h1 h2, of "\<lparr>vx = 3, vy = 0, vz = 0\<rparr>" "\<lambda>x z. 0" "\<lambda>i. (0, 0)" "1 / 10"]
  have "state (monsters (update (\<lambda>x z. 0) (\<lambda>i. (0, 0)) (1 / 10) \<lparr>vx = 3, vy = 0, vz = 0\<rparr> c7_game) ! 0)
       = Chase
   \<and> pos_x (monsters (update (\<lambda>x z. 0) (\<lambda>i. (0, 0)) (1 / 10) \<lparr>vx = 3, vy = 0, vz = 0\<rparr> c7_game) ! 0)
       = 1 / 5"
    unfolding Let_def m d j using b by simp
  with h1 h2 d j m show ?thesis by simp
qed

text \<open>
  C6: a call of \<open>update\<close> in a state whose monster at index \<open>i\<close> is dead. The call
  removes the monster exactly when its \<open>deathTime\<close> plus \<open>delta\<close> exceeds the threshold
  of its kind (4 for the boss, 1.5 otherwise). Below the threshold the monster stays in
  the list, at the index \<open>new_index delta (monsters s) i\<close>, dead, with \<open>deathTime\<close>
  increased by \<open>delta\<close>. Above it, its group is no longer in the scene, and no monster
  of the list has its group (the groups of the monsters being distinct). The list after
  the call holds the monsters that were not removed, in their order; the scene has lost
  the groups of the removed ones; and for every removed monster that is not the boss, and
  for no other, one timer of 5000 ms has been added. Through every later sequence of
  calls the monster is dead for as long as it is in the list.
\<close>

theorem dead_monster_lifecycle:
  assumes "i < length (monsters s)" and "state (monsters s ! i) = Dead"
  shows "let m = monsters s ! i;
             s' = update getTerrainHeight rnd delta playerPos s;
             threshold = (if isBoss m then 4 else 3 / 2);
             j = new_index delta (monsters s) i
         in (expired delta m \<longleftrightarrow> deathTime m + delta > threshold)
          \<and> (\<not> deathTime m + delta > threshold \<longrightarrow>
               j < length (monsters s') \<and> gid (monsters s' ! j) = gid m
             \<and> state (monsters s' ! j) = Dead
             \<and> deathTime (monsters s' ! j) = deathTime m + delta)
          \<and> (deathTime m + delta > threshold \<longrightarrow>
               gid m \<notin> scene s'
             \<and> (distinct (map gid (monsters s)) \<longrightarrow> gid m \<notin> gid ` set (monsters s')))
          \<and> map gid (monsters s') = map gid (filter (\<lambda>m. \<not> expired delta m) (monsters s))
          \<and> scene s' = scene s - gid ` {m \<in> set (monsters s). expired delta m}
          \<and> timers s' = timers s @
               replicate (length (filter (\<lambda>m. expired delta m \<and> \<not> isBoss m) (monsters s))) 5000
          \<and> stays_dead es s i"
proof -
  define m where "m = monsters s ! i"
  define s' where "s' = update getTerrainHeight rnd delta playerPos s"
  define j where "j = new_index delta (monsters s) i"
  have mem: "m \<in> set (monsters s)" using assms(1) by (simp add: m_def)
  have dead: "state m = Dead" using assms(2) by (simp add: m_def)
  have ex: "expired delta m \<longleftrightarrow> deathTime m + delta > (if isBoss m then 4 else 3 / 2)"
    using dead by (simp add: expired_def removeTime_def)
  have gids: "map gid (monsters s') = map gid (filter (\<lambda>m. \<not> expired delta m) (monsters s))"
    unfolding s'_def by (rule update_map_gid)
  have sc: "scene s' = scene s - gid ` {m \<in> set (monsters s). expired delta m}"
    unfolding s'_def by (rule update_scene)
  have tm: "timers s' = timers s @
               replicate (length (filter (\<lambda>m. expired delta m \<and> \<not> isBoss m) (monsters s))) 5000"
    unfolding s'_def by (rule update_timers)
  have keep: "j < length (monsters s') \<and> gid (monsters s' ! j) = gid m
             \<and> state (monsters s' ! j) = Dead
             \<and> deathTime (monsters s' ! j) = deathTime m + delta"
    if ne: "\<not> expired delta m"
  proof -
    have u: "update_one getTerrainHeight (rnd i) delta playerPos m
           = Some (dead_step delta (m\<lparr>mtime := mtime m + delta\<rparr>))"
      using ne dead by (simp add: update_one_dead expired_def)
    from update_nth[OF assms(1) ne[unfolded m_def], of getTerrainHeight rnd playerPos]
    have "j < length (monsters s')"
      and "monsters s' ! j = dead_step delta (m\<lparr>mtime := mtime m + delta\<rparr>)"
      unfolding j_def[symmetric] s'_def[symmetric] m_def[symmetric] u by simp_all
    then show ?thesis using dead by simp
  qed
  have gone: "gid m \<notin> scene s'
             \<and> (distinct (map gid (monsters s)) \<longrightarrow> gid m \<notin> gid ` set (monsters s'))"
    if e: "expired delta m"
  proof -
    have a: "gid m \<notin> scene s'" unfolding sc using mem e by blast
    have b: "gid m \<notin> gid ` set (monsters s')" if d: "distinct (map gid (monsters s))"
    proof
      assume "gid m \<in> gid ` set (monsters s')"
      then have "gid m \<in> set (map gid (monsters s'))" by simp
      then have "gid m \<in> gid ` set (filter (\<lambda>m. \<not> expired delta m) (monsters s))"
        unfolding gids by simp
      then obtain m2 where m2: "m2 \<in> set (monsters s)" "\<not> expired delta m2" "gid m2 = gid m"
        by auto
      have "inj_on gid (set (monsters s))" using d by (simp add: distinct_map)
      then have "m2 = m" using m2(1,3) mem by (auto dest: inj_onD)
      then show False using m2(2) e by simp
    qed
    from a b show ?thesis by blast
  qed
  have sd: "stays_dead es s i" by (rule stays_dead_ok[OF assms])
  show ?thesis
    unfolding Let_def m_def[symmetric] s'_def[symmetric] j_def[symmetric]
    using ex keep gone gids sc tm sd by blast
qed

text \<open>
  Three dead monsters and a frame of 0.1 s: the first (1.45 s dead, not the boss) and the
  boss (4 s dead) are removed, with one respawn timer; the third stays, dead, with
  \<open>deathTime\<close> 0.1.
\<close>

theorem dead_monster_lifecycle_witness:
  "2 < length (monsters c6_game)
   \<and> state (monsters c6_game ! 2) = Dead
   \<and> stays_dead [GMelee origin 0 3 10, GFrame (\<lambda>x z. 0) (\<lambda>i. (0, 0)) 0 (1 / 10) origin,
                  GSpells 0 (1 / 10)] c6_game 2
   \<and> map gid (monsters (update (\<lambda>x z. 0) (\<lambda>i. (0, 0)) (1 / 10) origin c6_game)) = [2]
   \<and> timers (update (\<lambda>x z. 0) (\<lambda>i. (0, 0)) (1 / 10) origin c6_game) = [5000]
   \<and> scene (update (\<lambda>x z. 0) (\<lambda>i. (0, 0)) (1 / 10) origin c6_game) = {2}
   \<and> state (monsters (update (\<lambda>x z. 0) (\<lambda>i. (0, 0)) (1 / 10) origin c6_game) ! 0) = Dead
   \<and> deathTime (monsters (update (\<lambda>x z. 0) (\<lambda>i. (0, 0)) (1 / 10) origin c6_game) ! 0) = 1 / 10"
proof -
  define m0 where "m0 = (ex_monster 0 0)\<lparr>state := Dead, deathTime := 29 / 20\<rparr>"
  define m1 where "m1 = (new_boss 0 1)\<lparr>state := Dead, deathTime := 4\<rparr>"
  define m2 where "m2 = (ex_monster 5 5)\<lparr>gid := 2, state := Dead, deathTime := 0\<rparr>"
  have ms: "monsters c6_game = [m0, m1, m2]" "timers c6_game = []"
    by (simp_all add: c6_game_def ex_game_def m0_def m1_def m2_def)
  have sc: "scene c6_game = {0, 1, 2}"
    by (auto simp: c6_game_def ex_game_def ex_monster_def new_monster_def new_boss_def)
  have e: "expired (1 / 10) m0" "expired (1 / 10) m1" "\<not> expired (1 / 10) m2"
    by (simp_all add: expired_def removeTime_def m0_def m1_def m2_def ex_monster_def
        new_monster_def new_boss_def)
  have f: "\<not> isBoss m0" "isBoss m1" "gid m0 = 0" "gid m1 = 1" "gid m2 = 2" "state m2 = Dead"
    "deathTime m2 = 0" "\<not> isBoss m2"
    by (simp_all add: m0_def m1_def m2_def ex_monster_def new_monster_def new_boss_def)
  have h1: "2 < length (monsters c6_game)" by (simp add: ms)
  have h2: "state (monsters c6_game ! 2) = Dead" by (simp add: ms f)
  have j: "new_index (1 / 10) (monsters c6_game) 2 = 0"
    by (simp add: new_index_def ms e numeral_2_eq_2)
  have n2: "monsters c6_game ! 2 = m2" by (simp add: ms)
  have set_e: "{m \<in> set [m0, m1, m2]. expired (1 / 10) m} = {m0, m1}"
    using e by auto
  from dead_monster_lifecycle[OF h1 h2, where delta = "1 / 10" and getTerrainHeight = "\<lambda>x z. 0"
      and rnd = "\<lambda>i. (0, 0)" and playerPos = origin
      and es = "[GMelee origin 0 3 10, GFrame (\<lambda>x z. 0) (\<lambda>i. (0, 0)) 0 (1 / 10) origin,
                  GSpells 0 (1 / 10)]"]
  have "stays_dead [GMelee origin 0 3 10, GFrame (\<lambda>x z. 0) (\<lambda>i. (0, 0)) 0 (1 / 10) origin,
                  GSpells 0 (1 / 10)] c6_game 2
   \<and> map gid (monsters (update (\<lambda>x z. 0) (\<lambda>i. (0, 0)) (1 / 10) origin c6_game)) = [2]
   \<and> timers (update (\<lambda>x z. 0) (\<lambda>i. (0, 0)) (1 / 10) origin c6_game) = [5000]
   \<and> scene (update (\<lambda>x z. 0) (\<lambda>i. (0, 0)) (1 / 10) origin c6_game) = {2}
   \<and> state (monsters (update (\<lambda>x z. 0) (\<lambda>i. (0, 0)) (1 / 10) origin c6_game) ! 0) = Dead
   \<and> deathTime (monsters (update (\<lambda>x z. 0) (\<lambda>i. (0, 0)) (1 / 10) origin c6_game) ! 0) = 1 / 10"
    unfolding Let_def j n2 unfolding ms sc set_e using e f by auto
  with h1 h2 show ?thesis by blast
qed

text \<open>
  C5. A monster that the wrapper has not marked frozen enters a frame of the wrapped
  update. If it is frozen at that frame (\<open>slowUntil\<close> set, the clock below it, not
  dead), the freeze begins there: at the end of that call of the wrapped update and of
  every later one at which it is still frozen, whatever melee attacks, casts, spell
  updates, damage checks and spawns come in between, the monster is in the list and its
  (x, z) position is the one it had when that first frame began.
\<close>

theorem frozen_monster_stays_put:
  assumes "i < length (monsters s)" and "\<not> frozen (monsters s ! i)"
    and "frozenPos (monsters s ! i) = None"
  shows "stays_put (pos_x (monsters s ! i), pos_z (monsters s ! i))
           (GFrame getTerrainHeight rnd now delta playerPos # es) s i"
proof (cases "isFrozen now (monsters s ! i)")
  case True
  define m where "m = monsters s ! i"
  define m0 where "m0 = freeze_mark now m"
  define s' where "s' = wrapped_update getTerrainHeight rnd now delta playerPos s"
  define j where "j = new_index delta (monsters s) i"
  have alive: "state m \<noteq> Dead"
    using True by (auto simp: m_def isFrozen_def split: option.splits)
  then have ne: "\<not> expired delta (monsters s ! i)" by (simp add: expired_def m_def)
  have f0: "frozen m0" "frozenPos m0 = Some (pos_x m, pos_z m)" "isFrozen now m0"
    using True assms(2,3)
    by (simp_all add: m_def m0_def freeze_mark_def Let_def isFrozen_def split: option.splits)
  have idem: "freeze_mark now m0 = m0"
    using f0 by (simp add: freeze_mark_def Let_def)
  have w: "wrapped_one getTerrainHeight (rnd i) now delta playerPos m
         = wrapped_one getTerrainHeight (rnd i) now delta playerPos m0"
    by (simp add: wrapped_one_def idem m0_def[symmetric])
  from frame_frozen[OF f0(3) f0(1) f0(2), of getTerrainHeight "rnd i" delta playerPos] obtain m' where
    m': "wrapped_one getTerrainHeight (rnd i) now delta playerPos m0 = Some m'"
      "pos_x m' = pos_x m" "pos_z m' = pos_z m" "frozen m'"
      "frozenPos m' = Some (pos_x m, pos_z m)" by auto
  from wrapped_update_nth[OF assms(1) ne, of getTerrainHeight rnd now playerPos]
  have jl: "j < length (monsters s')" and n: "monsters s' ! j = m'"
    unfolding m_def[symmetric] w m'(1) j_def[symmetric] s'_def[symmetric] by simp_all
  have g: "gid m' = gid m" using wrapped_one_gid[of getTerrainHeight "rnd i" now delta playerPos m m']
    by (simp add: w m'(1))
  have rest: "stays_put (pos_x m, pos_z m) es s' j"
    by (rule stays_put_marked[OF jl]) (simp_all add: n m')
  show ?thesis
    using True jl g m'(2,3) rest
    by (simp add: Let_def m_def[symmetric] s'_def[symmetric] j_def[symmetric] n)
next
  case False
  then show ?thesis by simp
qed


text \<open>
  A monster at (5, 0), slowed until time 10, behind a dead monster that the first frame
  removes. The frame at time 1 begins the freeze; the melee attack that follows hits the
  monster and knocks it back to x = 5.8; the frame at time 2 puts it back at (5, 0).
\<close>

theorem frozen_monster_stays_put_witness:
  "1 < length (monsters c5_game)
   \<and> \<not> frozen (monsters c5_game ! 1)
   \<and> frozenPos (monsters c5_game ! 1) = None
   \<and> isFrozen 1 (monsters c5_game ! 1)
   \<and> stays_put (5, 0)
        [GFrame (\<lambda>x z. 0) (\<lambda>i. (0, 0)) 1 (1 / 10) origin,
         GMelee origin (pi / 2) 10 5,
         GFrame (\<lambda>x z. 0) (\<lambda>i. (0, 0)) 2 (1 / 10) origin] c5_game 1
   \<and> pos_x (monsters (wrapped_update (\<lambda>x z. 0) (\<lambda>i. (0, 0)) 1 (1 / 10) origin c5_game) ! 0) = 5
   \<and> pos_z (monsters (wrapped_update (\<lambda>x z. 0) (\<lambda>i. (0, 0)) 1 (1 / 10) origin c5_game) ! 0) = 0
   \<and> pos_x (monsters (fst (attackMonstersInRange origin (pi / 2) 10 5
         (wrapped_update (\<lambda>x z. 0) (\<lambda>i. (0, 0)) 1 (1 / 10) origin c5_game))) ! 0) = 29 / 5
   \<and> pos_x (monsters (wrapped_update (\<lambda>x z. 0) (\<lambda>i. (0, 0)) 2 (1 / 10) origin
         (fst (attackMonstersInRange origin (pi / 2) 10 5
            (wrapped_update (\<lambda>x z. 0) (\<lambda>i. (0, 0)) 1 (1 / 10) origin c5_game)))) ! 0) = 5
   \<and> pos_z (monsters (wrapped_update (\<lambda>x z. 0) (\<lambda>i. (0, 0)) 2 (1 / 10) origin
         (fst (attackMonstersInRange origin (pi / 2) 10 5
            (wrapped_update (\<lambda>x z. 0) (\<lambda>i. (0, 0)) 1 (1 / 10) origin c5_game)))) ! 0) = 0"
proof -
  define d0 where "d0 = (ex_monster 9 9)\<lparr>state := Dead, deathTime := 29 / 20\<rparr>"
  define s1 where "s1 = wrapped_update (\<lambda>x z. 0) (\<lambda>i. (0, 0)) 1 (1 / 10) origin c5_game"
  define s2 where "s2 = fst (attackMonstersInRange origin (pi / 2) 10 5 s1)"
  define s3 where "s3 = wrapped_update (\<lambda>x z. 0) (\<lambda>i. (0, 0)) 2 (1 / 10) origin s2"
  define m1 where "m1 = monsters s1 ! 0"
  define m2 where "m2 = fst (attack_one origin (pi / 2) 10 5 m1)"
  have ms: "monsters c5_game = [d0, frozen_sample]"
    by (simp add: c5_game_def ex_game_def d0_def)
  have n1: "monsters c5_game ! 1 = frozen_sample" by (simp add: ms)
  have h1: "1 < length (monsters c5_game)" by (simp add: ms)
  have fs: "\<not> frozen frozen_sample" "frozenPos frozen_sample = None"
    "pos_x frozen_sample = 5" "pos_z frozen_sample = 0" "state frozen_sample \<noteq> Dead"
    "slowUntil frozen_sample = Some 10" "hp frozen_sample = 60"
    by (simp_all add: frozen_sample_def ex_monster_def new_monster_def)
  have h2: "\<not> frozen (monsters c5_game ! 1)" and h3: "frozenPos (monsters c5_game ! 1) = None"
    unfolding n1 by (rule fs)+
  have b: "isFrozen 1 frozen_sample"
    by (simp add: isFrozen_def fs)
  have ex: "expired (1 / 10) d0" "\<not> expired (1 / 10) frozen_sample"
    using fs(5) by (simp_all add: expired_def removeTime_def d0_def ex_monster_def new_monster_def)
  have j: "new_index (1 / 10) (monsters c5_game) 1 = 0"
    by (simp add: new_index_def ms ex)
  have j0: "new_index (1 / 10) ms' 0 = 0" for ms'
    by (simp add: new_index_def)
  from frozen_monster_stays_put[OF h1 h2 h3, where getTerrainHeight = "\<lambda>x z. 0"
      and rnd = "\<lambda>i. (0, 0)" and now = 1 and delta = "1 / 10" and playerPos = origin
      and es = "[GMelee origin (pi / 2) 10 5,
                 GFrame (\<lambda>x z. 0) (\<lambda>i. (0, 0)) 2 (1 / 10) origin]"]
  have ok: "stays_put (5, 0)
        [GFrame (\<lambda>x z. 0) (\<lambda>i. (0, 0)) 1 (1 / 10) origin,
         GMelee origin (pi / 2) 10 5,
         GFrame (\<lambda>x z. 0) (\<lambda>i. (0, 0)) 2 (1 / 10) origin] c5_game 1"
    unfolding n1 fs(3,4) .
  have n1S: "monsters c5_game ! Suc 0 = frozen_sample" by (simp add: ms)
  have jS: "new_index (1 / 10) (monsters c5_game) (Suc 0) = 0"
    by (simp add: new_index_def ms ex)
  from ok b have al: "0 < length (monsters s1) \<and> pos_x m1 = 5 \<and> pos_z m1 = 0
      \<and> (isFrozen 2 (monsters s2 ! 0) \<longrightarrow>
            pos_x (monsters s3 ! 0) = 5 \<and> pos_z (monsters s3 ! 0) = 0)"
    by (simp add: n1S jS j0 Let_def s1_def[symmetric] m1_def s2_def s3_def split: if_splits)
  then have a1: "0 < length (monsters s1)" "pos_x m1 = 5" "pos_z m1 = 0"
    and r1: "isFrozen 2 (monsters s2 ! 0) \<longrightarrow>
            pos_x (monsters s3 ! 0) = 5 \<and> pos_z (monsters s3 ! 0) = 0"
    by blast+
  from wrapped_update_nth[OF h1, of "1 / 10" "\<lambda>x z. 0" "\<lambda>i. (0, 0)" 1 origin] ex(2)
  have w: "wrapped_one (\<lambda>x z. 0) (0, 0) 1 (1 / 10) origin frozen_sample = Some m1"
    by (simp add: n1S jS s1_def[symmetric] m1_def)
  from wrapped_one_alive[OF w fs(5)]
  have f1: "state m1 \<noteq> Dead" "slowUntil m1 = Some 10" "hp m1 = 60"
    by (simp_all add: fs)
  have sq: "sqrt 25 = 5" by (rule real_sqrt_unique) simp_all
  have at: "atan2 5 0 = pi / 2" by (simp add: atan2_def)
  have a2: "pos_x m2 = 29 / 5" "state m2 \<noteq> Dead" "slowUntil m2 = Some 10"
    using f1 a1(2,3)
    by (simp_all add: m2_def attack_one_def Let_def origin_def sq at wrap_down_id wrap_up_id)
  have n2: "monsters s2 ! 0 = m2"
    using a1(1) by (simp add: s2_def attackMonstersInRange_monsters m2_def m1_def)
  have b2: "isFrozen 2 (monsters s2 ! 0)"
    by (simp add: n2 isFrozen_def a2)
  from r1 b2 have a3: "pos_x (monsters s3 ! 0) = 5" "pos_z (monsters s3 ! 0) = 0"
    by blast+
  show ?thesis
    using h1 h2 h3 b ok a1(2,3) a2(1) a3
    unfolding n1 m1_def n2[symmetric] s3_def s2_def s1_def by blast
qed

text \<open>
  C4, against the claim: a projectile that has traveled 40 of its range 40 moves on by 1
  and is then 0 away from a monster. The update removes it, its distance traveled now
  exceeding its range, and the monster has lost 25 hp.
\<close>

theorem late_bolt_counterexample:
  "p_traveled (advance (1 / 25) late_bolt) > p_range (advance (1 / 25) late_bolt)
   \<and> projectiles late_game = [late_bolt]
   \<and> projectiles (state_after (spells_update 0 (1 / 25) late_game)) = []
   \<and> hp (monsters late_game ! 0) = 60
   \<and> hp (monsters (state_after (spells_update 0 (1 / 25) late_game)) ! 0) = 35"
proof -
  define q where "q = advance (1 / 25) late_bolt"
  define m where "m = ex_monster 0 41"
  have g: "\<not> proto_currentCd late_game" "projectiles late_game = [late_bolt]"
    "monsters late_game = [m]"
    by (simp_all add: late_game_def ex_game_def m_def)
  have hp0: "hp m = 60" by (simp add: m_def ex_monster_def new_monster_def)
  have e: "eligible q m"
    by (simp add: eligible_def planar_dist_def q_def advance_def late_bolt_def bolt_sample_def
        m_def ex_monster_def new_monster_def)
  have t: "p_traveled q > p_range q"
    by (simp add: q_def advance_def late_bolt_def bolt_sample_def)
  have d: "hp (bolt_damage 0 q m) = 35"
    by (simp add: bolt_damage_def Let_def hp0 q_def advance_def late_bolt_def bolt_sample_def)
  have h: "hit_detect 0 q [m] = ([bolt_damage 0 q m], True)"
    using hit_detect_hit[of 0 "[m]" q 0] e by simp
  have s': "state_after (spells_update 0 (1 / 25) late_game) = spells_update_body 0 (1 / 25) late_game"
    using g(1) by (simp add: spells_update_def state_after_def)
  have ab: "after_bolts 0 (1 / 25) [late_bolt] [m] = [bolt_damage 0 q m]"
    by (simp only: after_bolts.simps q_def[symmetric] h fst_conv)
  have ab0: "after_bolts 0 (1 / 25) [] [m] = [m]" by simp
  from spells_update_body_sweep[of 0 "1 / 25" late_game]
  have "monsters (spells_update_body 0 (1 / 25) late_game) = [bolt_damage 0 q m]"
    and "projectiles (spells_update_body 0 (1 / 25) late_game) = []"
    unfolding g ab by (simp_all add: ab0 q_def[symmetric] h t del: hit_detect.simps)
  then show ?thesis
    using t d hp0 unfolding s' q_def by (simp add: g)
qed

text \<open>
  C4, amended. A call of the update of the spells that throws (after the cooldowns)
  leaves monsters and projectiles as they were. Otherwise the projectiles are gone
  through from the last to the first: projectile \<open>k\<close> is advanced to \<open>q k\<close> and meets the
  monsters \<open>M k\<close> that the projectiles after it have left. If some monster of \<open>M k\<close> is
  not dead and within its hit radius (4 for the boss, 1.5 otherwise), the first such
  monster in list order, and no other, takes the damage and the slow; otherwise no
  monster changes. The projectiles after the call are those that hit no monster and
  whose distance traveled does not exceed their range, advanced, in their order: a
  projectile that damages a monster is removed in that call, and a projectile that hits
  no monster does no damage and is removed exactly when its distance traveled exceeds
  its range. The range is tested after the hit detection.
\<close>

theorem projectile_hit_and_removal:
  "let ps = projectiles s;
       q = (\<lambda>k. advance delta (ps ! k));
       M = (\<lambda>k. after_bolts now delta (drop (Suc k) ps) (monsters s));
       hits = (\<lambda>k. \<exists>m \<in> set (M k). eligible (q k) m);
       s' = state_after (spells_update now delta s)
   in (proto_currentCd s \<longrightarrow>
         spells_update now delta s = Inl (TypeError, s')
       \<and> monsters s' = monsters s \<and> projectiles s' = ps)
    \<and> (\<not> proto_currentCd s \<longrightarrow>
         spells_update now delta s = Inr s'
       \<and> monsters s' = after_bolts now delta ps (monsters s)
       \<and> projectiles s'
           = map q (filter (\<lambda>k. \<not> hits k \<and> \<not> p_traveled (q k) > p_range (q k)) [0..<length ps])
       \<and> (\<forall>k < length ps.
             (hits k \<longrightarrow>
                (\<exists>j < length (M k).
                    eligible (q k) (M k ! j) \<and> (\<forall>j' < j. \<not> eligible (q k) (M k ! j'))
                  \<and> after_bolts now delta (drop k ps) (monsters s)
                      = (M k)[j := bolt_damage now (q k) (M k ! j)]))
           \<and> (\<not> hits k \<longrightarrow> after_bolts now delta (drop k ps) (monsters s) = M k)))"
proof -
  define ps where "ps = projectiles s"
  define q where "q = (\<lambda>k. advance delta (ps ! k))"
  define M where "M = (\<lambda>k. after_bolts now delta (drop (Suc k) ps) (monsters s))"
  define hits where "hits = (\<lambda>k. \<exists>m \<in> set (M k). eligible (q k) m)"
  define s' where "s' = state_after (spells_update now delta s)"
  have thr: "spells_update now delta s = Inl (TypeError, s')
       \<and> monsters s' = monsters s \<and> projectiles s' = ps" if "proto_currentCd s"
    using that by (simp add: s'_def spells_update_def state_after_def decay_cooldowns_def ps_def)
  have fl: "snd (hit_detect now (q k) (M k)) \<longleftrightarrow> hits k" for k
    by (simp add: hits_def hit_detect_flag)
  have step: "after_bolts now delta (drop k ps) (monsters s) = fst (hit_detect now (q k) (M k))"
    if "k < length ps" for k
    unfolding q_def M_def by (rule after_bolts_step[OF that])
  have per: "(hits k \<longrightarrow>
                (\<exists>j < length (M k).
                    eligible (q k) (M k ! j) \<and> (\<forall>j' < j. \<not> eligible (q k) (M k ! j'))
                  \<and> after_bolts now delta (drop k ps) (monsters s)
                      = (M k)[j := bolt_damage now (q k) (M k ! j)]))
           \<and> (\<not> hits k \<longrightarrow> after_bolts now delta (drop k ps) (monsters s) = M k)"
    if k: "k < length ps" for k
  proof (cases "hits k")
    case True
    then have "\<exists>m \<in> set (M k). eligible (q k) m" by (simp add: hits_def)
    from first_eligible[OF this] obtain j where j: "j < length (M k)" "eligible (q k) (M k ! j)"
      "\<forall>j' < j. \<not> eligible (q k) (M k ! j')" by blast
    from hit_detect_hit[OF j, of now]
    have "after_bolts now delta (drop k ps) (monsters s) = (M k)[j := bolt_damage now (q k) (M k ! j)]"
      by (simp add: step[OF k])
    with j True show ?thesis by blast
  next
    case False
    then have "\<forall>m \<in> set (M k). \<not> eligible (q k) m" by (simp add: hits_def)
    from hit_detect_miss[OF this, of now] False show ?thesis by (simp add: step[OF k])
  qed
  have ret: "spells_update now delta s = Inr s'
       \<and> monsters s' = after_bolts now delta ps (monsters s)
       \<and> projectiles s'
           = map q (filter (\<lambda>k. \<not> hits k \<and> \<not> p_traveled (q k) > p_range (q k)) [0..<length ps])"
    if np: "\<not> proto_currentCd s"
  proof -
    have s'b: "s' = spells_update_body now delta s"
      using np by (simp add: s'_def spells_update_def state_after_def)
    have r: "spells_update now delta s = Inr s'"
      using np by (simp add: s'b spells_update_def)
    from spells_update_body_sweep[of now delta s]
    have "monsters s' = after_bolts now delta ps (monsters s)"
      and "projectiles s'
           = map q (filter (\<lambda>k. \<not> snd (hit_detect now (q k) (M k))
                                 \<and> \<not> p_traveled (q k) > p_range (q k)) [0..<length ps])"
      unfolding s'b ps_def[symmetric] q_def M_def by blast+
    with r show ?thesis unfolding fl by blast
  qed
  have per': "\<forall>k < length ps.
           (hits k \<longrightarrow>
                (\<exists>j < length (M k).
                    eligible (q k) (M k ! j) \<and> (\<forall>j' < j. \<not> eligible (q k) (M k ! j'))
                  \<and> after_bolts now delta (drop k ps) (monsters s)
                      = (M k)[j := bolt_damage now (q k) (M k ! j)]))
           \<and> (\<not> hits k \<longrightarrow> after_bolts now delta (drop k ps) (monsters s) = M k)"
    using per by blast
  have "(proto_currentCd s \<longrightarrow>
         spells_update now delta s = Inl (TypeError, s')
       \<and> monsters s' = monsters s \<and> projectiles s' = ps)
    \<and> (\<not> proto_currentCd s \<longrightarrow>
         spells_update now delta s = Inr s'
       \<and> monsters s' = after_bolts now delta ps (monsters s)
       \<and> projectiles s'
           = map q (filter (\<lambda>k. \<not> hits k \<and> \<not> p_traveled (q k) > p_range (q k)) [0..<length ps])
       \<and> (\<forall>k < length ps.
             (hits k \<longrightarrow>
                (\<exists>j < length (M k).
                    eligible (q k) (M k ! j) \<and> (\<forall>j' < j. \<not> eligible (q k) (M k ! j'))
                  \<and> after_bolts now delta (drop k ps) (monsters s)
                      = (M k)[j := bolt_damage now (q k) (M k ! j)]))
           \<and> (\<not> hits k \<longrightarrow> after_bolts now delta (drop k ps) (monsters s) = M k)))"
    using thr ret per' by (cases "proto_currentCd s") simp_all
  then show ?thesis
    unfolding Let_def hits_def M_def q_def s'_def ps_def .
qed


text \<open>
  Three projectiles and two monsters, at (0, 1) and (0, 2). The first projectile arrives
  at (0, 1), within 1.5 of both monsters: the first monster takes 25, the second none,
  and the projectile is removed. The second ends far from both with 41 traveled of its
  range 40 and is removed without damage; the third, far from both, stays.
\<close>

theorem projectile_hit_and_removal_witness:
  "\<not> proto_currentCd c4_game
   \<and> projectiles c4_game = [bolt_sample, spent_bolt, far_bolt]
   \<and> map hp (monsters c4_game) = [60, 60]
   \<and> projectiles (state_after (spells_update 0 (1 / 25) c4_game)) = [advance (1 / 25) far_bolt]
   \<and> map hp (monsters (state_after (spells_update 0 (1 / 25) c4_game))) = [35, 60]"
proof -
  define mA where "mA = ex_monster 0 1"
  define mB where "mB = ex_monster 0 2"
  define q0 where "q0 = advance (1 / 25) bolt_sample"
  define q1 where "q1 = advance (1 / 25) spent_bolt"
  define q2 where "q2 = advance (1 / 25) far_bolt"
  have g: "\<not> proto_currentCd c4_game" "projectiles c4_game = [bolt_sample, spent_bolt, far_bolt]"
    "monsters c4_game = [mA, mB]"
    by (simp_all add: c4_game_def ex_game_def mA_def mB_def)
  have hp0: "hp mA = 60" "hp mB = 60"
    by (simp_all add: mA_def mB_def ex_monster_def new_monster_def)
  have e0: "eligible q0 mA"
    by (simp add: eligible_def planar_dist_def q0_def advance_def bolt_sample_def origin_def
        mA_def ex_monster_def new_monster_def)
  have e1: "\<not> eligible q1 mA" "\<not> eligible q1 mB"
    by (simp_all add: eligible_def planar_dist_def q1_def advance_def spent_bolt_def bolt_sample_def
        origin_def mA_def mB_def ex_monster_def new_monster_def sqrt_less_pos)
  have e2: "\<not> eligible q2 mA" "\<not> eligible q2 mB"
    by (simp_all add: eligible_def planar_dist_def q2_def advance_def far_bolt_def bolt_sample_def
        origin_def mA_def mB_def ex_monster_def new_monster_def sqrt_less_pos)
  have t: "\<not> p_traveled q0 > p_range q0" "p_traveled q1 > p_range q1" "\<not> p_traveled q2 > p_range q2"
    by (simp_all add: q0_def q1_def q2_def advance_def spent_bolt_def far_bolt_def bolt_sample_def)
  have d0: "hp (bolt_damage 0 q0 mA) = 35"
    by (simp add: bolt_damage_def Let_def hp0 q0_def advance_def bolt_sample_def)
  have h2: "hit_detect 0 q2 [mA, mB] = ([mA, mB], False)"
    by (rule hit_detect_miss) (simp add: e2)
  have h1: "hit_detect 0 q1 [mA, mB] = ([mA, mB], False)"
    by (rule hit_detect_miss) (simp add: e1)
  have h0: "hit_detect 0 q0 [mA, mB] = ([bolt_damage 0 q0 mA, mB], True)"
    using hit_detect_hit[of 0 "[mA, mB]" q0 0] e0 by simp
  have ab3: "after_bolts 0 (1 / 25) [] [mA, mB] = [mA, mB]" by simp
  have ab2: "after_bolts 0 (1 / 25) [far_bolt] [mA, mB] = [mA, mB]"
    by (simp only: after_bolts.simps q2_def[symmetric] h2 fst_conv)
  have ab1: "after_bolts 0 (1 / 25) [spent_bolt, far_bolt] [mA, mB] = [mA, mB]"
    by (simp only: after_bolts.simps q2_def[symmetric] q1_def[symmetric] h2 h1 fst_conv)
  have ab0: "after_bolts 0 (1 / 25) [bolt_sample, spent_bolt, far_bolt] [mA, mB]
           = [bolt_damage 0 q0 mA, mB]"
    by (simp only: after_bolts.simps q2_def[symmetric] q1_def[symmetric] q0_def[symmetric]
        h2 h1 h0 fst_conv)
  note th = projectile_hit_and_removal[of c4_game "1 / 25" 0, unfolded Let_def]
  from th g(1) have
    m: "monsters (state_after (spells_update 0 (1 / 25) c4_game))
          = after_bolts 0 (1 / 25) (projectiles c4_game) (monsters c4_game)" and
    p: "projectiles (state_after (spells_update 0 (1 / 25) c4_game))
          = map (\<lambda>k. advance (1 / 25) (projectiles c4_game ! k))
              (filter (\<lambda>k. \<not> (\<exists>m \<in> set (after_bolts 0 (1 / 25) (drop (Suc k) (projectiles c4_game))
                                              (monsters c4_game)).
                                 eligible (advance (1 / 25) (projectiles c4_game ! k)) m)
                         \<and> \<not> p_traveled (advance (1 / 25) (projectiles c4_game ! k))
                               > p_range (advance (1 / 25) (projectiles c4_game ! k)))
                 [0..<length (projectiles c4_game)])"
    by blast+
  have m': "map hp (monsters (state_after (spells_update 0 (1 / 25) c4_game))) = [35, 60]"
    unfolding m g ab0 by (simp add: d0 hp0)
  have up: "[0..<length [bolt_sample, spent_bolt, far_bolt]] = [0, Suc 0, Suc (Suc 0)]"
    by (simp add: upt_rec)
  have p': "projectiles (state_after (spells_update 0 (1 / 25) c4_game)) = [advance (1 / 25) far_bolt]"
    unfolding p g up
    using e0 e1 e2 t
    by (simp add: ab1 ab2 ab3 q0_def[symmetric] q1_def[symmetric] q2_def[symmetric]
        del: after_bolts.simps)
  from g(1,2) hp0 m' p' show ?thesis by (simp add: g(3))
qed

end
